theory Spec2Isabelle
  imports Complex_Main "HOL-Library.Option_ord"
begin

section \<open>The asynchronous steady-state scheduler: \<open>DistributedNSGAII\<close>\<close>

text \<open>
  Source: \<^verbatim>\<open>jmetal/algorithm/multiobjective/nsgaii.py\<close>, class \<^verbatim>\<open>DistributedNSGAII\<close>.

  The coordinator is single threaded; everything it does not decide itself is read from an
  explicit world state \<open>'w\<close>: the random draws of the problem and of the operators, the
  order in which the execution service completes the outstanding futures, and the clock.
  The solution type \<open>'s\<close> is a parameter, as the source's \<^verbatim>\<open>TypeVar('S')\<close>.

  Solutions are values: the execution service evaluates its own copy of a submitted
  solution, and the result of a future is what \<^verbatim>\<open>evaluate\<close> returns for it. The operators
  are taken to return; three places of the source can raise inside \<^verbatim>\<open>run\<close>:
  \<^verbatim>\<open>future.result()\<close> re-raises the failure of the evaluation, \<^verbatim>\<open>offspring[0]\<close> raises
  \<^verbatim>\<open>IndexError\<close> on an empty offspring list, and the loop
  \<^verbatim>\<open>for future in task_pool.futures: future.cancel()\<close> raises \<^verbatim>\<open>RuntimeError\<close> when the
  dictionary it iterates changes size under it. Console output (\<^verbatim>\<open>print\<close>) is not
  modelled.
\<close>

datatype error = EvaluationError | IndexError | RuntimeError

text \<open>The keyword arguments of \<^verbatim>\<open>observable.notify_all\<close> built by \<^verbatim>\<open>update_progress\<close>.\<close>

record 's event =
  EVALUATIONS :: int
  COMPUTING_TIME :: real
  SOLUTIONS :: "'s list"
  reference_front :: "'s list option"

text \<open>
  The constructor's arguments. Sizes are counts (\<open>nat\<close>): \<^verbatim>\<open>range(number_of_cores)\<close> is empty
  for a negative argument as it is for zero. The operators are their \<^verbatim>\<open>execute\<close> methods;
  \<open>mutation_operator\<close> gives the solution as it is after the in-place mutation.
  \<open>ranking_and_crowding n\<close> stands for \<^verbatim>\<open>RankingAndCrowdingDistanceSelection(n).execute\<close>,
  which \<^verbatim>\<open>nsgaii.py\<close> imports from \<^verbatim>\<open>jmetal.operator\<close>; \<open>as_completed w n\<close> is the position, among
  \<open>n\<close> outstanding futures, of the one that the execution service completes next;
  \<open>time_time\<close> is \<^verbatim>\<open>time.time()\<close>.

  \<open>cancellation w n\<close> is what happens to the loop
  \<^verbatim>\<open>for future in task_pool.futures: future.cancel()\<close> when \<open>n\<close> futures are outstanding.
  \<^verbatim>\<open>task_pool.futures\<close> is the dictionary in which the execution service keeps the futures
  that have not completed yet, and the service takes a future out of it when the future
  completes or is cancelled, while the coordinator iterates. \<open>Inl RuntimeError\<close>: the
  dictionary changed size under the iteration, and the loop raises. \<open>Inr flags\<close>: the
  loop came to its end; \<open>flags\<close> says, in the order of the pool, which outstanding
  futures it reached and cancelled. A future it did not reach had completed already
  and its result is dropped.
\<close>

record ('s, 'w) DistributedNSGAII =
  population_size :: nat
  max_evaluations :: int
  number_of_cores :: nat
  create_solution :: "'w \<Rightarrow> 's \<times> 'w"
  evaluate :: "'s \<Rightarrow> error + 's"
  problem_reference_front :: "'s list option"
  mutation_operator :: "'s \<Rightarrow> 'w \<Rightarrow> 's \<times> 'w"
  crossover_operator :: "'s list \<Rightarrow> 'w \<Rightarrow> 's list \<times> 'w"
  selection_operator :: "'s list \<Rightarrow> 'w \<Rightarrow> 's \<times> 'w"
  ranking_and_crowding :: "nat \<Rightarrow> 's list \<Rightarrow> 's list"
  as_completed :: "'w \<Rightarrow> nat \<Rightarrow> nat \<times> 'w"
  cancellation :: "'w \<Rightarrow> nat \<Rightarrow> error + bool list"
  time_time :: "'w \<Rightarrow> real"

text \<open>
  The mutable attributes of the instance. \<open>self_population\<close> is \<^verbatim>\<open>self.population\<close>
  (\<open>None\<close> is Python's \<^verbatim>\<open>None\<close>); the local variable \<^verbatim>\<open>population\<close> of \<^verbatim>\<open>run\<close> is the
  field \<open>population\<close> of the loop state below.
\<close>

record 's self =
  self_population :: "'s list option"
  evaluations :: int
  start_computing_time :: real
  total_computing_time :: real

definition init :: "'s self" where
  "init = \<lparr>self_population = None, evaluations = 0,
           start_computing_time = 0, total_computing_time = 0\<rparr>"

definition get_result :: "('s, 'z) self_scheme \<Rightarrow> 's list option" where
  "get_result self = self_population self"

text \<open>
  The state of \<^verbatim>\<open>run\<close>: the instance, the locals, and what the run has done to its
  collaborators. \<open>task_pool\<close> holds the outstanding futures, each named by the solution
  whose evaluation it is, in submission order; \<open>submitted\<close> lists every
  \<^verbatim>\<open>client.submit\<close>, \<open>cancelled\<close> every \<^verbatim>\<open>future.cancel()\<close> and \<open>notified\<close> every
  \<^verbatim>\<open>notify_all\<close>, oldest first.
\<close>

record ('s, 'w) state = "'s self" +
  population_to_evaluate :: "'s list"
  population :: "'s list"
  task_pool :: "'s list"
  submitted :: "'s list"
  cancelled :: "'s list"
  notified :: "'s event list"
  world :: 'w

definition update_progress ::
  "('s, 'w) DistributedNSGAII \<Rightarrow> 's list \<Rightarrow> ('s, 'w) state \<Rightarrow> ('s, 'w) state" where
  "update_progress alg pop st =
     st\<lparr>notified := notified st @
          [\<lparr>EVALUATIONS = evaluations st,
            COMPUTING_TIME = total_computing_time st,
            SOLUTIONS = pop,
            reference_front = problem_reference_front alg\<rparr>]\<rparr>"

fun create_solutions :: "('w \<Rightarrow> 's \<times> 'w) \<Rightarrow> nat \<Rightarrow> 'w \<Rightarrow> 's list \<times> 'w" where
  "create_solutions create 0 w = ([], w)"
| "create_solutions create (Suc n) w =
     (case create w of (s, w1) \<Rightarrow>
        (case create_solutions create n w1 of (ss, w2) \<Rightarrow> (s # ss, w2)))"

definition create_initial_population ::
  "('s, 'w) DistributedNSGAII \<Rightarrow> 'w \<Rightarrow> 's list \<times> 'w" where
  "create_initial_population alg w =
     create_solutions (create_solution alg) (number_of_cores alg) w"

text \<open>
  The iterator of \<^verbatim>\<open>as_completed\<close>: the execution service decides which outstanding future
  is completed next, and the iterator hands it over, after which it is outstanding no
  longer.
\<close>

definition completed_index :: "('s, 'w) DistributedNSGAII \<Rightarrow> ('s, 'w) state \<Rightarrow> nat" where
  "completed_index alg st =
     fst (as_completed alg (world st) (length (task_pool st))) mod length (task_pool st)"

definition completed_future :: "('s, 'w) DistributedNSGAII \<Rightarrow> ('s, 'w) state \<Rightarrow> 's" where
  "completed_future alg st = task_pool st ! completed_index alg st"

definition still_outstanding :: "('s, 'w) DistributedNSGAII \<Rightarrow> ('s, 'w) state \<Rightarrow> 's list" where
  "still_outstanding alg st =
     take (completed_index alg st) (task_pool st) @
     drop (Suc (completed_index alg st)) (task_pool st)"

definition handed_over ::
  "('s, 'w) DistributedNSGAII \<Rightarrow> ('s, 'w) state \<Rightarrow> ('s, 'w) state" where
  "handed_over alg st =
     st\<lparr>task_pool := still_outstanding alg st,
        world := snd (as_completed alg (world st) (length (task_pool st)))\<rparr>"

text \<open>The futures that the cancelling loop reached, given its flags.\<close>

definition reached :: "'s list \<Rightarrow> bool list \<Rightarrow> 's list" where
  "reached futures flags = map fst (filter snd (zip futures flags))"

text \<open>
  One pass through the body of \<^verbatim>\<open>for future in task_pool\<close>, on the future handed over.
  The pass ends at the bottom of the body (\<open>Continue\<close>), at the \<^verbatim>\<open>break\<close> (\<open>Break\<close>), or
  with an exception (\<open>Raise\<close>).
\<close>

datatype ('s, 'w) pass =
    is_Continue: Continue (state_of: "('s, 'w) state")
  | is_Break: Break (state_of: "('s, 'w) state")
  | is_Raise: Raise error

definition end_of_body ::
  "('s, 'w) DistributedNSGAII \<Rightarrow> ('s, 'w) state \<Rightarrow> ('s, 'w) state" where
  "end_of_body alg st =
     (let st1 = st\<lparr>evaluations := evaluations st + 1\<rparr>
      in if evaluations st1 mod 10 = 0
         then update_progress alg (population_to_evaluate st1) st1
         else st1)"

definition for_body ::
  "('s, 'w) DistributedNSGAII \<Rightarrow> ('s, 'w) state \<Rightarrow> ('s, 'w) pass" where
  "for_body alg st =
     (let future = completed_future alg st;
          st1 = (handed_over alg st)\<lparr>evaluations := evaluations st + 1\<rparr>
      in if length (population st1) < population_size alg then
           (case evaluate alg future of
              Inl e \<Rightarrow> Raise e
            | Inr received_solution \<Rightarrow>
                (case create_solution alg (world st1) of (new_solution, w2) \<Rightarrow>
                   Continue (end_of_body alg
                     (st1\<lparr>population := population st1 @ [received_solution],
                          task_pool := task_pool st1 @ [new_solution],
                          submitted := submitted st1 @ [new_solution],
                          world := w2\<rparr>))))
         else if evaluations st1 < max_evaluations alg then
           (case evaluate alg future of
              Inl e \<Rightarrow> Raise e
            | Inr result \<Rightarrow>
                let offspring_population = [result];
                    join_population = population st1 @ offspring_population;
                    population' = ranking_and_crowding alg (population_size alg) join_population
                in (case selection_operator alg (population_to_evaluate st1) (world st1) of
                      (parent1, w2) \<Rightarrow>
                    (case selection_operator alg (population_to_evaluate st1) w2 of
                      (parent2, w3) \<Rightarrow>
                    (case crossover_operator alg [parent1, parent2] w3 of
                      (offspring, w4) \<Rightarrow>
                    (case offspring of
                       [] \<Rightarrow> Raise IndexError
                     | child # _ \<Rightarrow>
                         (case mutation_operator alg child w4 of
                            (solution_to_evaluate, w5) \<Rightarrow>
                              Continue (end_of_body alg
                                (st1\<lparr>population := population',
                                     task_pool := task_pool st1 @ [solution_to_evaluate],
                                     submitted := submitted st1 @ [solution_to_evaluate],
                                     world := w5\<rparr>))))))))
         else
           (case cancellation alg (world st1) (length (task_pool st1)) of
              Inl e \<Rightarrow> Raise e
            | Inr flags \<Rightarrow>
                Break (st1\<lparr>cancelled := cancelled st1 @ reached (task_pool st1) flags,
                          task_pool := []\<rparr>)))"

text \<open>
  \<^verbatim>\<open>for future in task_pool\<close>: the iterator stops when no future is outstanding,
  otherwise the body runs on the next completed future.
\<close>

function for_loop ::
  "('s, 'w) DistributedNSGAII \<Rightarrow> ('s, 'w) state \<Rightarrow> error + ('s, 'w) state" where
  "for_loop alg st =
     (if task_pool st = [] then Inr st
      else (case for_body alg st of
              Raise e \<Rightarrow> Inl e
            | Break st' \<Rightarrow> Inr st'
            | Continue st' \<Rightarrow> for_loop alg st'))"
  by pat_completeness auto
termination
proof (relation "measures [\<lambda>(alg, st). nat (max_evaluations alg - evaluations st),
                           \<lambda>(alg, st). population_size alg - length (population st)]")
  fix alg :: "('s, 'w) DistributedNSGAII" and st st' :: "('s, 'w) state"
  assume "for_body alg st = Continue st'"
  then have "evaluations st' = evaluations st + 2 \<and>
      (length (population st) < population_size alg \<and>
         length (population st') = Suc (length (population st)) \<or>
       evaluations st + 1 < max_evaluations alg)"
    by (auto simp: for_body_def handed_over_def Let_def end_of_body_def update_progress_def
             split: prod.splits sum.splits list.splits if_splits)
  then show "((alg, st'), (alg, st)) \<in>
      measures [\<lambda>(alg, st). nat (max_evaluations alg - evaluations st),
                \<lambda>(alg, st). population_size alg - length (population st)]"
    by auto
qed simp

text \<open>
  \<^verbatim>\<open>while self.evaluations < self.max_evaluations\<close>. The guard is read before the first
  pass and again whenever the \<^verbatim>\<open>for\<close> loop has ended; when it ended with nothing
  changed (an empty pool), the source never leaves the \<^verbatim>\<open>while\<close>, which is the value
  \<open>None\<close> here.
\<close>

partial_function (option) while_loop ::
  "('s, 'w) DistributedNSGAII \<Rightarrow> ('s, 'w) state \<Rightarrow> (error + ('s, 'w) state) option" where
  "while_loop alg st =
     (if evaluations st < max_evaluations alg
      then (case for_loop alg st of
              Inl e \<Rightarrow> Some (Inl e)
            | Inr st' \<Rightarrow> while_loop alg st')
      else Some (Inr st))"

text \<open>
  \<^verbatim>\<open>run\<close>. \<open>start\<close> is the state in which the main loop is entered: the initial solutions
  are created and submitted, the clock is read, the population is empty. After the loop
  the elapsed time and the population are stored in the instance.
\<close>

definition start ::
  "('s, 'w) DistributedNSGAII \<Rightarrow> 's self \<Rightarrow> 'w \<Rightarrow> ('s, 'w) state" where
  "start alg self w =
     (case create_initial_population alg w of (initial, w1) \<Rightarrow>
        \<lparr>self_population = self_population self,
         evaluations = evaluations self,
         start_computing_time = time_time alg w1,
         total_computing_time = total_computing_time self,
         population_to_evaluate = initial,
         population = [],
         task_pool = initial,
         submitted = initial,
         cancelled = [],
         notified = [],
         world = w1\<rparr>)"

definition finish ::
  "('s, 'w) DistributedNSGAII \<Rightarrow> ('s, 'w) state \<Rightarrow> ('s, 'w) state" where
  "finish alg st =
     st\<lparr>total_computing_time := time_time alg (world st) - start_computing_time st,
        self_population := Some (population st)\<rparr>"

definition run ::
  "('s, 'w) DistributedNSGAII \<Rightarrow> 's self \<Rightarrow> 'w \<Rightarrow> (error + ('s, 'w) state) option" where
  "run alg self w =
     (case while_loop alg (start alg self w) of
        None \<Rightarrow> None
      | Some (Inl e) \<Rightarrow> Some (Inl e)
      | Some (Inr st) \<Rightarrow> Some (Inr (finish alg st)))"

text \<open>
  The first \<open>k\<close> passes of the \<^verbatim>\<open>for\<close> loop from a state, for speaking about the states a
  run goes through: \<open>Continue st\<close> when all of them ended at the bottom of the body (or
  the pool was empty and there was no pass to make), otherwise the \<^verbatim>\<open>break\<close> or the
  exception that ended the loop.
\<close>

fun passes ::
  "nat \<Rightarrow> ('s, 'w) DistributedNSGAII \<Rightarrow> ('s, 'w) state \<Rightarrow> ('s, 'w) pass" where
  "passes 0 alg st = Continue st"
| "passes (Suc k) alg st =
     (if task_pool st = [] then Continue st
      else (case for_body alg st of
              Continue st' \<Rightarrow> passes k alg st'
            | Break st' \<Rightarrow> Break st'
            | Raise e \<Rightarrow> Raise e))"

section \<open>Solutions and the ranking-and-crowding-distance selection\<close>

text \<open>
  \<^verbatim>\<open>nsgaii.py\<close> imports the selection from \<^verbatim>\<open>jmetal.operator\<close>, the comparator from
  \<^verbatim>\<open>jmetal.component\<close> and its solutions are those of \<^verbatim>\<open>jmetal.core.solution\<close>. The
  definitions of this section follow sections 3 and 4.1 to 4.4 of the specification.
  Python's floats are read as real numbers.
\<close>

text \<open>
  Modelled from the spec: the values kept in a solution's attribute map, which is missing
  with \<^verbatim>\<open>jmetal.core.solution\<close>. A rank is a finite number; a crowding distance may be
  \<open>+infinity\<close>.
\<close>

datatype number = Finite real | Infinity

text \<open>
  Modelled from the spec: the sum of two distances, for the missing \<^verbatim>\<open>CrowdingDistance\<close>;
  \<open>+infinity\<close> is preserved.
\<close>

fun add_number :: "number \<Rightarrow> number \<Rightarrow> number" where
  "add_number (Finite a) (Finite b) = Finite (a + b)"
| "add_number _ _ = Infinity"

text \<open>
  Modelled from the spec: the class \<^verbatim>\<open>Solution\<close> of \<^verbatim>\<open>jmetal.core.solution\<close> (section 3):
  decision vector, objective vector, constraint vector and the open attribute map.
\<close>

record solution =
  variables :: "real list"
  objectives :: "real list"
  constraints :: "real list"
  attributes :: "string \<rightharpoonup> number"

text \<open>
  The dominance comparator, \<^verbatim>\<open>DominanceComparator\<close> of \<^verbatim>\<open>jmetal.component\<close>, which is
  missing (section 4.1). A negative constraint value is a violation and its magnitude
  counts. \<open>-1\<close>: the first solution dominates; \<open>1\<close>: the second does; \<open>0\<close>: neither.
  Objective vectors of different lengths, which the data model excludes, are
  incomparable.
\<close>

text \<open>Modelled from the spec: the total violation of a solution (sections 3 and 4.1).\<close>

definition overall_constraint_violation :: "solution \<Rightarrow> real" where
  "overall_constraint_violation s = (\<Sum>c\<leftarrow>constraints s. if c < 0 then - c else 0)"

text \<open>
  Modelled from the spec: the comparison of all objectives (section 4.1): no worse in
  every objective and strictly better in at least one, for minimisation.
\<close>

definition pareto_dominates :: "real list \<Rightarrow> real list \<Rightarrow> bool" where
  "pareto_dominates xs ys \<longleftrightarrow>
     list_all2 (\<le>) xs ys \<and> list_ex (\<lambda>(x, y). x < y) (zip xs ys)"

text \<open>
  Modelled from the spec: \<^verbatim>\<open>DominanceComparator.compare\<close> (section 4.1): when either
  solution violates a constraint, the one with strictly less total violation dominates;
  otherwise the objectives decide.
\<close>

definition DominanceComparator_compare :: "solution \<Rightarrow> solution \<Rightarrow> int" where
  "DominanceComparator_compare a b =
     (let va = overall_constraint_violation a; vb = overall_constraint_violation b
      in if (0 < va \<or> 0 < vb) \<and> va < vb then - 1
         else if (0 < va \<or> 0 < vb) \<and> vb < va then 1
         else if pareto_dominates (objectives a) (objectives b) then - 1
         else if pareto_dominates (objectives b) (objectives a) then 1
         else 0)"

text \<open>
  The non-dominated sort, \<^verbatim>\<open>FastNonDominatedRanking\<close>, which is missing (section 4.2),
  for any comparator \<open>cmp\<close>. \<open>domination_count\<close> is the number of solutions that dominate \<open>s\<close>. The first
  front is made of the solutions whose count is 0. Decrementing, for each member of that
  front, the count of everything it dominates leaves every other solution with the number
  of its dominators among the other solutions, which is its count within the rest: the
  next front is made of the solutions of the rest whose count there is 0, and so on until
  a front comes out empty. A front lists its members in the population's order.
\<close>

text \<open>Modelled from the spec: \<open>a\<close> dominates \<open>b\<close> when the comparator answers \<open>-1\<close> (section 4.1).\<close>

definition dominates :: "('s \<Rightarrow> 's \<Rightarrow> int) \<Rightarrow> 's \<Rightarrow> 's \<Rightarrow> bool" where
  "dominates cmp a b \<longleftrightarrow> cmp a b = - 1"

text \<open>Modelled from the spec: the domination count of section 4.2.\<close>

definition domination_count :: "('s \<Rightarrow> 's \<Rightarrow> int) \<Rightarrow> 's list \<Rightarrow> 's \<Rightarrow> nat" where
  "domination_count cmp P s = length (filter (\<lambda>t. dominates cmp t s) P)"

text \<open>Modelled from the spec: the fronts \<open>F1, F2, ...\<close> of section 4.2.\<close>

function fronts :: "('s \<Rightarrow> 's \<Rightarrow> int) \<Rightarrow> 's list \<Rightarrow> 's list list" where
  "fronts cmp P =
     (let F = filter (\<lambda>s. domination_count cmp P s = 0) P
      in if F = [] then []
         else F # fronts cmp (filter (\<lambda>s. domination_count cmp P s \<noteq> 0) P))"
  by pat_completeness auto
termination
proof (relation "measure (\<lambda>(cmp, P). length P)")
  fix cmp :: "'s \<Rightarrow> 's \<Rightarrow> int" and P F :: "'s list"
  assume F: "F = filter (\<lambda>s. domination_count cmp P s = 0) P" and "F \<noteq> []"
  then obtain s where "s \<in> set P" "domination_count cmp P s = 0"
    by (metis (mono_tags, lifting) filter_False)
  then have "length (filter (\<lambda>s. domination_count cmp P s \<noteq> 0) P) < length P"
    by (intro length_filter_less[of s]) auto
  then show "((cmp, filter (\<lambda>s. domination_count cmp P s \<noteq> 0) P), (cmp, P))
               \<in> measure (\<lambda>(cmp, P). length P)"
    by simp
qed simp

text \<open>
  Modelled from the spec: the rank, counted from 0, is attached to each solution through
  its attribute map (section 4.2).
\<close>

definition set_rank :: "nat \<Rightarrow> solution \<Rightarrow> solution" where
  "set_rank k s = s\<lparr>attributes := (attributes s)(''rank'' \<mapsto> Finite (real k))\<rparr>"

text \<open>Modelled from the spec: \<^verbatim>\<open>FastNonDominatedRanking\<close>, the ranked fronts (section 4.2).\<close>

definition compute_ranking ::
  "(solution \<Rightarrow> solution \<Rightarrow> int) \<Rightarrow> solution list \<Rightarrow> solution list list" where
  "compute_ranking cmp P =
     (let fs = fronts cmp P
      in map (\<lambda>(k, F). map (set_rank k) F) (zip [0..<length fs] fs))"

text \<open>
  The density estimator, \<^verbatim>\<open>CrowdingDistance\<close>, which is missing (section 4.3), for one
  front. Distances
  are kept by position in the front, all 0 at first. For objective \<open>m\<close> the positions are
  sorted by that objective's value; the two boundary positions get \<open>Infinity\<close>, an interior
  one gains the difference of its two neighbours' values over the spread, or 0 when the
  spread is 0. The objectives considered are those that every member of the front has
  (by the data model, all of them).
\<close>

text \<open>Modelled from the spec: the number of objectives of a front (sections 3 and 4.3).\<close>

definition objective_count :: "solution list \<Rightarrow> nat" where
  "objective_count F =
     (case F of [] \<Rightarrow> 0
      | s # ss \<Rightarrow> fold (\<lambda>t k. min (length (objectives t)) k) ss (length (objectives s)))"

text \<open>Modelled from the spec: the contribution of one objective to the distances (section 4.3).\<close>

definition add_objective :: "solution list \<Rightarrow> nat \<Rightarrow> number list \<Rightarrow> number list" where
  "add_objective F m d =
     (let n = length F;
          order = sort_key (\<lambda>i. objectives (F ! i) ! m) [0..<n];
          v = (\<lambda>k. objectives (F ! (order ! k)) ! m);
          lo = v 0;
          hi = v (n - 1)
      in fold (\<lambda>k d. d[order ! k :=
                 (if k = 0 \<or> k = n - 1 then Infinity
                  else add_number (d ! (order ! k))
                         (Finite (if hi = lo then 0 else (v (k + 1) - v (k - 1)) / (hi - lo))))])
              [0..<n] d)"

text \<open>Modelled from the spec: the sum over all objectives (section 4.3).\<close>

definition crowding_distances :: "solution list \<Rightarrow> number list" where
  "crowding_distances F =
     fold (add_objective F) [0..<objective_count F] (replicate (length F) (Finite 0))"

text \<open>Modelled from the spec: the distance is stored in the attribute map (section 4.3).\<close>

definition set_crowding_distance :: "number \<Rightarrow> solution \<Rightarrow> solution" where
  "set_crowding_distance d s = s\<lparr>attributes := (attributes s)(''crowding_distance'' \<mapsto> d)\<rparr>"

text \<open>
  Modelled from the spec: \<^verbatim>\<open>CrowdingDistance\<close> on a front (section 4.3): each member with
  its distance stored, paired with that distance.
\<close>

definition compute_density_estimator :: "solution list \<Rightarrow> (solution \<times> number) list" where
  "compute_density_estimator F =
     map (\<lambda>(s, d). (set_crowding_distance d s, d)) (zip F (crowding_distances F))"

text \<open>
  The selection, \<^verbatim>\<open>RankingAndCrowdingDistanceSelection.execute\<close> of \<^verbatim>\<open>jmetal.operator\<close>,
  which is missing (section 4.4). Whole fronts join the result in rank order while the
  running total stays within the target; the first front that would exceed it is sorted
  by crowding distance, largest first and \<open>Infinity\<close> before all, ties in their original
  order (the sort is stable), and gives only as many members as are still needed.
\<close>

text \<open>
  Modelled from the spec: the order of the truncation (section 4.4): \<open>Infinity\<close> first, then
  larger distances before smaller ones.
\<close>

definition distance_key :: "number \<Rightarrow> real option" where
  "distance_key d = (case d of Infinity \<Rightarrow> None | Finite r \<Rightarrow> Some (- r))"

text \<open>Modelled from the spec: a front sorted by crowding distance, stably (section 4.4).\<close>

definition sort_by_crowding_distance :: "solution list \<Rightarrow> solution list" where
  "sort_by_crowding_distance F =
     map fst (sort_key (\<lambda>(s, d). distance_key d) (compute_density_estimator F))"

text \<open>
  Modelled from the spec: the accumulation of whole fronts and the truncation of the
  first one that does not fit (section 4.4).
\<close>

fun accumulate :: "nat \<Rightarrow> solution list \<Rightarrow> solution list list \<Rightarrow> solution list" where
  "accumulate target result [] = result"
| "accumulate target result (F # Fs) =
     (if length result + length F \<le> target
      then accumulate target (result @ F) Fs
      else result @ take (target - length result) (sort_by_crowding_distance F))"

text \<open>
  Modelled from the spec: \<^verbatim>\<open>RankingAndCrowdingDistanceSelection(n, cmp).execute(front)\<close>
  (section 4.4).
\<close>

definition RankingAndCrowdingDistanceSelection_execute ::
  "nat \<Rightarrow> (solution \<Rightarrow> solution \<Rightarrow> int) \<Rightarrow> solution list \<Rightarrow> solution list" where
  "RankingAndCrowdingDistanceSelection_execute max_population_size cmp front =
     accumulate max_population_size [] (compute_ranking cmp front)"

section \<open>The generational algorithm: \<open>NSGAII.replacement\<close>\<close>

text \<open>
  Source: \<^verbatim>\<open>jmetal/algorithm/multiobjective/nsgaii.py\<close>, class \<^verbatim>\<open>NSGAII\<close>. Only the two
  attributes that \<^verbatim>\<open>replacement\<close> reads are kept.
\<close>

record NSGAII =
  NSGAII_population_size :: nat
  dominance_comparator :: "solution \<Rightarrow> solution \<Rightarrow> int"

definition replacement :: "NSGAII \<Rightarrow> solution list \<Rightarrow> solution list \<Rightarrow> solution list" where
  "replacement self parent_population offspring_population =
     (let join_population = parent_population @ offspring_population
      in RankingAndCrowdingDistanceSelection_execute
           (NSGAII_population_size self) (dominance_comparator self) join_population)"

section \<open>A benchmark problem: \<open>DTLZ1.evaluate\<close>\<close>

text \<open>
  Source: \<^verbatim>\<open>jmetalpy/problem/multiobjective/dtlz.py\<close>. The method works on the solution in
  place; the model returns the solution as the method leaves it together with the value
  the call returns, which is Python's \<^verbatim>\<open>None\<close> (here \<open>None\<close>) when the body ends without a
  \<^verbatim>\<open>return\<close> statement. List accesses are Python's: a negative index counts from the end
  and an index out of range_py raises \<^verbatim>\<open>IndexError\<close>.
\<close>

record DTLZ1 =
  number_of_variables :: int
  number_of_objectives :: int

definition getitem :: "'a list \<Rightarrow> int \<Rightarrow> error + 'a" where
  "getitem xs i =
     (if 0 \<le> i \<and> i < int (length xs) then Inr (xs ! nat i)
      else if - int (length xs) \<le> i \<and> i < 0 then Inr (xs ! nat (int (length xs) + i))
      else Inl IndexError)"

definition setitem :: "'a list \<Rightarrow> int \<Rightarrow> 'a \<Rightarrow> error + 'a list" where
  "setitem xs i v =
     (if 0 \<le> i \<and> i < int (length xs) then Inr (xs[nat i := v])
      else if - int (length xs) \<le> i \<and> i < 0 then Inr (xs[nat (int (length xs) + i) := v])
      else Inl IndexError)"

definition range_py :: "int \<Rightarrow> int \<Rightarrow> int list" where
  "range_py a b = [a..b - 1]"

text \<open>\<^verbatim>\<open>for i in range(number_of_variables - k, number_of_variables): g += ...\<close>\<close>

fun sum_g :: "real list \<Rightarrow> int list \<Rightarrow> real \<Rightarrow> error + real" where
  "sum_g x [] g = Inr g"
| "sum_g x (i # is) g =
     (case getitem x i of
        Inl e \<Rightarrow> Inl e
      | Inr xi \<Rightarrow> sum_g x is (g + ((xi - 0.5) * (xi - 0.5) - cos (20.0 * pi * (xi - 0.5)))))"

text \<open>\<^verbatim>\<open>for i in range(number_of_objectives): solution.objectives[i] = (1.0 + g) * 0.5\<close>\<close>

fun fill_objectives :: "real \<Rightarrow> int list \<Rightarrow> real list \<Rightarrow> error + real list" where
  "fill_objectives v [] os = Inr os"
| "fill_objectives v (i # is) os =
     (case setitem os i v of
        Inl e \<Rightarrow> Inl e
      | Inr os1 \<Rightarrow> fill_objectives v is os1)"

text \<open>\<^verbatim>\<open>solution.objectives[i] *= f\<close>\<close>

definition scale_objective :: "real list \<Rightarrow> int \<Rightarrow> real \<Rightarrow> error + real list" where
  "scale_objective os i f =
     (case getitem os i of
        Inl e \<Rightarrow> Inl e
      | Inr oi \<Rightarrow> setitem os i (oi * f))"

text \<open>\<^verbatim>\<open>for j in range(number_of_objectives - (i + 1)): solution.objectives[i] *= solution.variables[j]\<close>\<close>

fun multiply_by_variables ::
  "real list \<Rightarrow> int \<Rightarrow> int list \<Rightarrow> real list \<Rightarrow> error + real list" where
  "multiply_by_variables x i [] os = Inr os"
| "multiply_by_variables x i (j # js) os =
     (case getitem os i of
        Inl e \<Rightarrow> Inl e
      | Inr _ \<Rightarrow>
          (case getitem x j of
             Inl e \<Rightarrow> Inl e
           | Inr xj \<Rightarrow>
               (case scale_objective os i xj of
                  Inl e \<Rightarrow> Inl e
                | Inr os1 \<Rightarrow> multiply_by_variables x i js os1)))"

text \<open>The last \<^verbatim>\<open>for i in range(number_of_objectives)\<close> loop.\<close>

fun shape_objectives ::
  "int \<Rightarrow> real list \<Rightarrow> int list \<Rightarrow> real list \<Rightarrow> error + real list" where
  "shape_objectives n x [] os = Inr os"
| "shape_objectives n x (i # is) os =
     (case multiply_by_variables x i (range_py 0 (n - (i + 1))) os of
        Inl e \<Rightarrow> Inl e
      | Inr os1 \<Rightarrow>
          if i \<noteq> 0 then
            (let aux = n - (i + 1)
             in case getitem os1 i of
                  Inl e \<Rightarrow> Inl e
                | Inr _ \<Rightarrow>
                    (case getitem x aux of
                       Inl e \<Rightarrow> Inl e
                     | Inr xa \<Rightarrow>
                         (case scale_objective os1 i (1 - xa) of
                            Inl e \<Rightarrow> Inl e
                          | Inr os2 \<Rightarrow> shape_objectives n x is os2)))
          else shape_objectives n x is os1)"

definition DTLZ1_evaluate :: "DTLZ1 \<Rightarrow> solution \<Rightarrow> error + (solution \<times> solution option)" where
  "DTLZ1_evaluate self solution =
     (let k = number_of_variables self - number_of_objectives self + 1
      in case sum_g (variables solution)
                (range_py (number_of_variables self - k) (number_of_variables self)) 0.0 of
           Inl e \<Rightarrow> Inl e
         | Inr g0 \<Rightarrow>
             (let g = 100 * (real_of_int k + g0)
              in case fill_objectives ((1.0 + g) * 0.5)
                        (range_py 0 (number_of_objectives self)) (objectives solution) of
                   Inl e \<Rightarrow> Inl e
                 | Inr os \<Rightarrow>
                     (case shape_objectives (number_of_objectives self) (variables solution)
                             (range_py 0 (number_of_objectives self)) os of
                        Inl e \<Rightarrow> Inl e
                      | Inr os' \<Rightarrow> Inr (solution\<lparr>objectives := os'\<rparr>, None))))"

section \<open>A small configuration\<close>

text \<open>
  A problem with one variable and one objective to minimise, \<open>f(x) = - x\<close>. The world is a
  counter: it numbers the solutions the problem creates (1, 2, 3, ...), decides the draws
  of the selection operator, and is the clock. The crossover writes the variables of its
  two parents side by side (\<open>10 * a + b\<close>) and the mutation adds 100, so that an
  offspring's variable shows its parents. Futures complete in submission order, and the
  cancelling loop reaches every outstanding future. Two workers, a population of two, a
  budget of ten.
\<close>

text \<open>
  \<open>created x\<close> is the solution with variable \<open>x\<close> as the problem creates it or as the
  operators breed it, \<open>evaluated x\<close> the same after its evaluation, \<open>ranked x k\<close> after the
  selection has put it into front \<open>k\<close>; \<open>point\<close> makes a solution of an objective vector.
\<close>

definition created :: "real \<Rightarrow> solution" where
  "created x =
     \<lparr>variables = [x], objectives = [0], constraints = [], attributes = Map.empty\<rparr>"

definition evaluated :: "real \<Rightarrow> solution" where
  "evaluated x =
     \<lparr>variables = [x], objectives = [- x], constraints = [], attributes = Map.empty\<rparr>"

definition ranked :: "real \<Rightarrow> nat \<Rightarrow> solution" where
  "ranked x k =
     \<lparr>variables = [x], objectives = [- x], constraints = [],
      attributes = [''rank'' \<mapsto> Finite (real k)]\<rparr>"

definition point :: "real list \<Rightarrow> solution" where
  "point os =
     \<lparr>variables = [], objectives = os, constraints = [], attributes = Map.empty\<rparr>"

definition small_create_solution :: "nat \<Rightarrow> solution \<times> nat" where
  "small_create_solution w = (created (real (w + 1)), w + 1)"

definition small_evaluate :: "solution \<Rightarrow> error + solution" where
  "small_evaluate s = Inr (s\<lparr>objectives := map uminus (variables s)\<rparr>)"

definition small_selection :: "solution list \<Rightarrow> nat \<Rightarrow> solution \<times> nat" where
  "small_selection xs w = (xs ! (w mod length xs), w + 1)"

definition small_crossover :: "solution list \<Rightarrow> nat \<Rightarrow> solution list \<times> nat" where
  "small_crossover parents w =
     (case parents of
        [a, b] \<Rightarrow>
          [\<lparr>variables = map (\<lambda>(x, y). 10 * x + y) (zip (variables a) (variables b)),
            objectives = [0], constraints = [], attributes = Map.empty\<rparr>]
      | _ \<Rightarrow> [],
      w)"

definition small_mutation :: "solution \<Rightarrow> nat \<Rightarrow> solution \<times> nat" where
  "small_mutation s w = (s\<lparr>variables := map (\<lambda>x. x + 100) (variables s)\<rparr>, w + 1)"

definition small :: "(solution, nat) DistributedNSGAII" where
  "small =
     \<lparr>population_size = 2,
      max_evaluations = 10,
      number_of_cores = 2,
      create_solution = small_create_solution,
      evaluate = small_evaluate,
      problem_reference_front = None,
      mutation_operator = small_mutation,
      crossover_operator = small_crossover,
      selection_operator = small_selection,
      ranking_and_crowding =
        (\<lambda>n. RankingAndCrowdingDistanceSelection_execute n DominanceComparator_compare),
      as_completed = (\<lambda>w n. (0, w)),
      cancellation = (\<lambda>w n. Inr (replicate n True)),
      time_time = real\<rparr>"

text \<open>The same configuration with a budget of one, smaller than the population.\<close>

definition hasty :: "(solution, nat) DistributedNSGAII" where
  "hasty = small\<lparr>max_evaluations := 1\<rparr>"

text \<open>The same configuration with a budget of zero: the guard of the main loop is false at once.\<close>

definition idle :: "(solution, nat) DistributedNSGAII" where
  "idle = small\<lparr>max_evaluations := 0\<rparr>"


text \<open>
  Modelled from the spec: what section 4.1 asks of a dominance comparator, which is missing
  with \<^verbatim>\<open>jmetal.component\<close>: dominance is irreflexive and transitive.
\<close>

definition strict_partial_order :: "('s \<Rightarrow> 's \<Rightarrow> int) \<Rightarrow> bool" where
  "strict_partial_order cmp \<longleftrightarrow>
     (\<forall>a. \<not> dominates cmp a a) \<and>
     (\<forall>a b c. dominates cmp a b \<longrightarrow> dominates cmp b c \<longrightarrow> dominates cmp a c)"



section \<open>One pass of the loop\<close>

declare for_loop.simps [simp del]
declare fronts.simps [simp del]

text \<open>What a pass leaves alone, and what each of its three ends says about it.\<close>

lemma end_of_body_fields:
  "evaluations (end_of_body alg st) = evaluations st + 1"
  "population (end_of_body alg st) = population st"
  "task_pool (end_of_body alg st) = task_pool st"
  "submitted (end_of_body alg st) = submitted st"
  "cancelled (end_of_body alg st) = cancelled st"
  "world (end_of_body alg st) = world st"
  "population_to_evaluate (end_of_body alg st) = population_to_evaluate st"
  "self_population (end_of_body alg st) = self_population st"
  "start_computing_time (end_of_body alg st) = start_computing_time st"
  "total_computing_time (end_of_body alg st) = total_computing_time st"
  by (simp_all add: end_of_body_def update_progress_def Let_def)

lemma handed_over_fields:
  "evaluations (handed_over alg st) = evaluations st"
  "population (handed_over alg st) = population st"
  "task_pool (handed_over alg st) = still_outstanding alg st"
  "submitted (handed_over alg st) = submitted st"
  "cancelled (handed_over alg st) = cancelled st"
  "notified (handed_over alg st) = notified st"
  "population_to_evaluate (handed_over alg st) = population_to_evaluate st"
  "self_population (handed_over alg st) = self_population st"
  "start_computing_time (handed_over alg st) = start_computing_time st"
  "total_computing_time (handed_over alg st) = total_computing_time st"
  by (simp_all add: handed_over_def)

lemma length_still_outstanding:
  assumes "task_pool st \<noteq> []"
  shows "Suc (length (still_outstanding alg st)) = length (task_pool st)"
proof -
  from assms have "completed_index alg st < length (task_pool st)"
    by (simp add: completed_index_def)
  then show ?thesis
    by (simp add: still_outstanding_def)
qed

lemma for_body_Continue:
  assumes "for_body alg st = Continue st'"
  shows "evaluations st' = evaluations st + 2"
    and "\<exists>s. task_pool st' = still_outstanding alg st @ [s] \<and> submitted st' = submitted st @ [s]"
    and "cancelled st' = cancelled st"
    and "self_population st' = self_population st"
    and "population_to_evaluate st' = population_to_evaluate st"
    and "start_computing_time st' = start_computing_time st"
    and "total_computing_time st' = total_computing_time st"
    and "\<exists>r. evaluate alg (completed_future alg st) = Inr r \<and>
           (if length (population st) < population_size alg
            then population st' = population st @ [r]
            else evaluations st + 1 < max_evaluations alg \<and>
                 population st' =
                   ranking_and_crowding alg (population_size alg) (population st @ [r]))"
  using assms
  by (auto simp: for_body_def Let_def end_of_body_fields handed_over_fields
           split: prod.splits sum.splits list.splits if_splits)

lemma for_body_Break:
  assumes "for_body alg st = Break st'"
  shows "population_size alg \<le> length (population st)"
    and "max_evaluations alg \<le> evaluations st + 1"
    and "\<exists>flags. cancellation alg (world (handed_over alg st))
             (length (still_outstanding alg st)) = Inr flags \<and>
           st' = (handed_over alg st)\<lparr>evaluations := evaluations st + 1,
               cancelled := cancelled st @ reached (still_outstanding alg st) flags,
               task_pool := []\<rparr>"
  using assms
  by (auto simp: for_body_def Let_def handed_over_fields
           split: prod.splits sum.splits list.splits if_splits)

lemma for_body_Break_fields:
  assumes "for_body alg st = Break st'"
  shows "evaluations st' = evaluations st + 1"
    and "population st' = population st"
    and "submitted st' = submitted st"
    and "task_pool st' = []"
    and "self_population st' = self_population st"
    and "notified st' = notified st"
  using for_body_Break(3)[OF assms] by (auto simp: handed_over_fields)

lemma for_body_exhausted:
  assumes "population_size alg \<le> length (population st)"
    and "max_evaluations alg \<le> evaluations st + 1"
  shows "for_body alg st =
           (case cancellation alg (world (handed_over alg st))
                   (length (still_outstanding alg st)) of
              Inl e \<Rightarrow> Raise e
            | Inr flags \<Rightarrow>
                Break ((handed_over alg st)\<lparr>evaluations := evaluations st + 1,
                  cancelled := cancelled st @ reached (still_outstanding alg st) flags,
                  task_pool := []\<rparr>))"
  using assms
  by (auto simp: for_body_def Let_def handed_over_fields split: sum.splits)


lemma for_body_filling:
  assumes "length (population st) < population_size alg"
    and "evaluate alg (completed_future alg st) = Inr r"
  shows "is_Continue (for_body alg st)"
    and "population (state_of (for_body alg st)) = population st @ [r]"
    and "submitted (state_of (for_body alg st)) =
           submitted st @ [fst (create_solution alg (world (handed_over alg st)))]"
    and "task_pool (state_of (for_body alg st)) =
           still_outstanding alg st @ [fst (create_solution alg (world (handed_over alg st)))]"
  using assms
  by (auto simp: for_body_def Let_def end_of_body_fields handed_over_fields
           split: prod.splits)

text \<open>The passes are the iterations of the \<^verbatim>\<open>for\<close> loop.\<close>

lemma passes_Continue_for_loop:
  "passes k alg st = Continue st' \<Longrightarrow> for_loop alg st = for_loop alg st'"
proof (induction k arbitrary: st)
  case 0
  then show ?case by simp
next
  case (Suc k)
  show ?case
  proof (cases "task_pool st = []")
    case True
    with Suc.prems show ?thesis by simp
  next
    case False
    with Suc.prems obtain st1 where st1: "for_body alg st = Continue st1"
      and rest: "passes k alg st1 = Continue st'"
      by (auto split: pass.splits)
    from Suc.IH[OF rest] have "for_loop alg st1 = for_loop alg st'" .
    with False st1 show ?thesis
      by (subst for_loop.simps) simp
  qed
qed

lemma for_loop_Break:
  assumes "task_pool st \<noteq> []" and "for_body alg st = Break st'"
  shows "for_loop alg st = Inr st'"
  using assms by (subst for_loop.simps) simp

lemma passes_invariant:
  assumes "passes k alg st = Continue st'"
  shows "length (task_pool st') = length (task_pool st) \<and>
         (task_pool st \<noteq> [] \<longrightarrow> length (submitted st') = length (submitted st) + k) \<and>
         self_population st' = self_population st \<and>
         population_to_evaluate st' = population_to_evaluate st \<and>
         total_computing_time st' = total_computing_time st \<and>
         start_computing_time st' = start_computing_time st \<and>
         cancelled st' = cancelled st"
  using assms
proof (induction k arbitrary: st)
  case 0
  then show ?case by simp
next
  case (Suc k)
  show ?case
  proof (cases "task_pool st = []")
    case True
    with Suc.prems show ?thesis by simp
  next
    case False
    with Suc.prems obtain st1 where a: "for_body alg st = Continue st1"
      and b: "passes k alg st1 = Continue st'"
      by (auto split: pass.splits)
    from for_body_Continue(2)[OF a] length_still_outstanding[OF False, of alg]
    have keep: "length (task_pool st1) = length (task_pool st)"
      "length (submitted st1) = Suc (length (submitted st))"
      by auto
    with False have "task_pool st1 \<noteq> []" by auto
    with Suc.IH[OF b] keep for_body_Continue(3-7)[OF a] show ?thesis
      by simp
  qed
qed

text \<open>The passes of a run can be followed one at a time.\<close>

lemma passes_snoc:
  "passes k alg st = Continue st' \<Longrightarrow> passes (Suc k) alg st = passes (Suc 0) alg st'"
proof (induction k arbitrary: st)
  case 0
  then show ?case by simp
next
  case (Suc k)
  show ?case
  proof (cases "task_pool st = []")
    case True
    with Suc.prems show ?thesis by simp
  next
    case False
    with Suc.prems obtain st1 where st1: "for_body alg st = Continue st1"
      and rest: "passes k alg st1 = Continue st'"
      by (auto split: pass.splits)
    from Suc.IH[OF rest] have "passes (Suc k) alg st1 = passes (Suc 0) alg st'" .
    with False st1 show ?thesis by simp
  qed
qed

lemma passes_Suc_for_body:
  assumes "passes k alg st = Continue st'" and "task_pool st' \<noteq> []"
  shows "passes (Suc k) alg st = for_body alg st'"
proof -
  from assms(2) have "passes (Suc 0) alg st' = for_body alg st'"
    by (cases "for_body alg st'") simp_all
  with passes_snoc[OF assms(1)] show ?thesis by simp
qed

text \<open>
  What a pass submits does not depend on the population, once the population is full:
  the parents are drawn from \<^verbatim>\<open>population_to_evaluate\<close>.
\<close>

lemma offspring_ignores_population:
  assumes "population_size alg \<le> length P" and "population_size alg \<le> length Q"
  shows "submitted (state_of (for_body alg (st\<lparr>population := P\<rparr>))) =
         submitted (state_of (for_body alg (st\<lparr>population := Q\<rparr>)))"
  using assms
  by (auto simp: for_body_def Let_def end_of_body_fields handed_over_def
        completed_future_def completed_index_def still_outstanding_def
        split: prod.splits sum.splits list.splits)

text \<open>
  The progress events: one at the bottom of every pass that leaves the counter at a
  multiple of 10, with the instance's \<^verbatim>\<open>total_computing_time\<close> and with
  \<^verbatim>\<open>population_to_evaluate\<close>, neither of which a pass changes.
\<close>

lemma for_body_notified:
  assumes "for_body alg st = Continue st'"
  shows "notified st' =
           (if evaluations st' mod 10 = 0
            then notified st @
                 [\<lparr>EVALUATIONS = evaluations st',
                   COMPUTING_TIME = total_computing_time st,
                   SOLUTIONS = population_to_evaluate st,
                   reference_front = problem_reference_front alg\<rparr>]
            else notified st)"
  using assms
  by (auto simp: for_body_def Let_def end_of_body_def update_progress_def handed_over_fields
           split: prod.splits sum.splits list.splits if_splits)

lemma passes_notified:
  assumes "passes k alg st = Continue st'"
    and "e \<in> set (notified st') - set (notified st)"
  shows "COMPUTING_TIME e = total_computing_time st \<and>
         SOLUTIONS e = population_to_evaluate st \<and> EVALUATIONS e mod 10 = 0"
  using assms
proof (induction k arbitrary: st)
  case 0
  then show ?case by simp
next
  case (Suc k)
  show ?case
  proof (cases "task_pool st = []")
    case True
    with Suc.prems show ?thesis by simp
  next
    case False
    with Suc.prems(1) obtain st1 where a: "for_body alg st = Continue st1"
      and b: "passes k alg st1 = Continue st'"
      by (auto split: pass.splits)
    note c = for_body_Continue(5,7)[OF a]
    show ?thesis
    proof (cases "e \<in> set (notified st1)")
      case True
      with Suc.prems(2) for_body_notified[OF a] show ?thesis
        by (auto split: if_splits)
    next
      case False
      with Suc.prems(2) have "e \<in> set (notified st') - set (notified st1)" by simp
      from Suc.IH[OF b this] c show ?thesis by simp
    qed
  qed
qed

section \<open>The iteration and the run\<close>

text \<open>
  With a future outstanding the \<^verbatim>\<open>for\<close> loop can only end at the \<^verbatim>\<open>break\<close> or with an
  exception, and after the \<^verbatim>\<open>break\<close> the guard of the \<^verbatim>\<open>while\<close> loop is false. With no
  future outstanding and the guard true, the \<^verbatim>\<open>while\<close> loop never ends.
\<close>

lemma for_loop_ends_at_break:
  assumes "task_pool st \<noteq> []" and "for_loop alg st = Inr st'"
  shows "\<exists>k st1. passes k alg st = Continue st1 \<and> task_pool st1 \<noteq> [] \<and>
           for_body alg st1 = Break st'"
  using assms
proof (induction alg st rule: for_loop.induct)
  case (1 alg st)
  show ?case
  proof (cases "for_body alg st")
    case (Continue x)
    from for_body_Continue(2)[OF Continue] have ne: "task_pool x \<noteq> []" by auto
    from "1.prems" Continue have "for_loop alg x = Inr st'"
      by (subst (asm) for_loop.simps) simp
    from "1.IH"[OF "1.prems"(1) Continue ne this] obtain k st1 where
      k: "passes k alg x = Continue st1" "task_pool st1 \<noteq> []" "for_body alg st1 = Break st'"
      by blast
    from k(1) "1.prems"(1) Continue have "passes (Suc k) alg st = Continue st1" by simp
    with k(2,3) show ?thesis by blast
  next
    case (Break x)
    with "1.prems" have "x = st'"
      by (subst (asm) for_loop.simps) simp
    with Break "1.prems"(1) have "passes 0 alg st = Continue st \<and> task_pool st \<noteq> [] \<and>
        for_body alg st = Break st'" by simp
    then show ?thesis by blast
  next
    case (Raise e)
    with "1.prems" show ?thesis
      by (subst (asm) for_loop.simps) simp
  qed
qed

lemma for_loop_result:
  assumes "task_pool st \<noteq> []" and "for_loop alg st = Inr st'"
  shows "population_size alg \<le> length (population st')"
    and "max_evaluations alg \<le> evaluations st'"
    and "task_pool st' = []"
    and "self_population st' = self_population st"
proof -
  from for_loop_ends_at_break[OF assms] obtain k st1 where
    k: "passes k alg st = Continue st1" "for_body alg st1 = Break st'"
    by blast
  from for_body_Break(1,2)[OF k(2)] for_body_Break_fields[OF k(2)] passes_invariant[OF k(1)]
  show "population_size alg \<le> length (population st')"
    and "max_evaluations alg \<le> evaluations st'"
    and "task_pool st' = []"
    and "self_population st' = self_population st"
    by simp_all
qed

lemma while_loop_skipped:
  "max_evaluations alg \<le> evaluations st \<Longrightarrow> while_loop alg st = Some (Inr st)"
  by (subst while_loop.simps) simp

lemma while_loop_entered:
  assumes "evaluations st < max_evaluations alg" and "task_pool st \<noteq> []"
  shows "while_loop alg st =
           (case for_loop alg st of Inl e \<Rightarrow> Some (Inl e) | Inr st' \<Rightarrow> Some (Inr st'))"
proof (cases "for_loop alg st")
  case (Inl e)
  with assms(1) show ?thesis by (subst while_loop.simps) simp
next
  case (Inr st')
  from for_loop_result(2)[OF assms(2) Inr] have "while_loop alg st' = Some (Inr st')"
    by (rule while_loop_skipped)
  with assms(1) Inr show ?thesis by (subst while_loop.simps) simp
qed

lemma while_loop_spins:
  assumes "while_loop alg st = Some r"
  shows "\<not> (evaluations st < max_evaluations alg \<and> task_pool st = [])"
  using assms
proof (induction rule: while_loop.raw_induct[rotated 1, consumes 1])
  case (1 while_loop alg st r)
  show ?case
  proof
    assume spin: "evaluations st < max_evaluations alg \<and> task_pool st = []"
    then have "for_loop alg st = Inr st" by (subst for_loop.simps) simp
    with spin "1.hyps" have "while_loop alg st = Some r" by simp
    from "1.IH"[OF this] spin show False by simp
  qed
qed

lemma length_create_solutions: "create_solutions create n w = (ss, w') \<Longrightarrow> length ss = n"
  by (induction n arbitrary: w ss w') (auto split: prod.splits)

lemma start_fields:
  "task_pool (start alg self w) = population_to_evaluate (start alg self w)"
  "submitted (start alg self w) = population_to_evaluate (start alg self w)"
  "length (population_to_evaluate (start alg self w)) = number_of_cores alg"
  "population (start alg self w) = []"
  "cancelled (start alg self w) = []"
  "notified (start alg self w) = []"
  "evaluations (start alg self w) = evaluations self"
  "self_population (start alg self w) = self_population self"
  "total_computing_time (start alg self w) = total_computing_time self"
  by (auto simp: start_def create_initial_population_def split: prod.splits
           dest: length_create_solutions)

lemma run_skipped:
  "max_evaluations alg \<le> evaluations self \<Longrightarrow>
     run alg self w = Some (Inr (finish alg (start alg self w)))"
  by (simp add: run_def while_loop_skipped start_fields)

lemma run_entered:
  assumes "evaluations self < max_evaluations alg" and "0 < number_of_cores alg"
  shows "run alg self w =
           (case for_loop alg (start alg self w) of
              Inl e \<Rightarrow> Some (Inl e) | Inr st' \<Rightarrow> Some (Inr (finish alg st')))"
proof -
  from assms(2) have "task_pool (start alg self w) \<noteq> []"
    using start_fields(1,3)[of alg self w] by auto
  with assms(1) show ?thesis
    by (simp add: run_def while_loop_entered start_fields split: sum.splits)
qed

lemma run_diverges:
  assumes "evaluations self < max_evaluations alg" and "number_of_cores alg = 0"
  shows "run alg self w = None"
proof -
  from assms(2) have "task_pool (start alg self w) = []"
    using start_fields(1,3)[of alg self w] by auto
  with assms(1) while_loop_spins[of alg "start alg self w"]
  have "while_loop alg (start alg self w) = None"
    by (cases "while_loop alg (start alg self w)") (auto simp: start_fields)
  then show ?thesis by (simp add: run_def)
qed

lemma start_pool_nonempty:
  "task_pool (start alg self w) \<noteq> [] \<longleftrightarrow> 0 < number_of_cores alg"
  by (metis length_greater_0_conv start_fields(1) start_fields(3))

lemma passes_Break:
  assumes "passes k alg st = Break st'"
  shows "\<exists>j st1. passes j alg st = Continue st1 \<and> task_pool st1 \<noteq> [] \<and>
           for_body alg st1 = Break st'"
  using assms
proof (induction k arbitrary: st)
  case 0
  then show ?case by simp
next
  case (Suc k)
  from Suc.prems have ne: "task_pool st \<noteq> []"
    by (auto split: if_splits)
  show ?case
  proof (cases "for_body alg st")
    case (Continue x)
    with Suc.prems ne have "passes k alg x = Break st'" by simp
    from Suc.IH[OF this] obtain j st1 where
      j: "passes j alg x = Continue st1" "task_pool st1 \<noteq> []" "for_body alg st1 = Break st'"
      by blast
    from j(1) ne Continue have "passes (Suc j) alg st = Continue st1" by simp
    with j(2,3) show ?thesis by blast
  next
    case (Break x)
    with Suc.prems ne have "x = st'" by simp
    with Break ne have "passes 0 alg st = Continue st \<and> task_pool st \<noteq> [] \<and>
        for_body alg st = Break st'" by simp
    then show ?thesis by blast
  next
    case (Raise e)
    with Suc.prems ne show ?thesis by simp
  qed
qed

lemma passes_Break_for_loop:
  assumes "passes k alg st = Break st'"
  shows "for_loop alg st = Inr st'"
proof -
  from passes_Break[OF assms] obtain j st1 where
    j: "passes j alg st = Continue st1" "task_pool st1 \<noteq> []" "for_body alg st1 = Break st'"
    by blast
  from passes_Continue_for_loop[OF j(1)] for_loop_Break[OF j(2,3)] show ?thesis by simp
qed

lemma run_ends_at_break:
  assumes "evaluations self < max_evaluations alg"
    and "passes k alg (start alg self w) = Break st'"
  shows "run alg self w = Some (Inr (finish alg st'))"
proof -
  from passes_Break[OF assms(2)] obtain j st1 where
    j: "passes j alg (start alg self w) = Continue st1" "task_pool st1 \<noteq> []"
    by blast
  from passes_invariant[OF j(1)] j(2) have "0 < number_of_cores alg"
    using start_pool_nonempty[of alg self w] by (metis length_0_conv)
  from run_entered[OF assms(1) this, of w] passes_Break_for_loop[OF assms(2)]
  show ?thesis by simp
qed

lemma passes_self_population:
  assumes "\<not> is_Raise (passes k alg st)"
  shows "self_population (state_of (passes k alg st)) = self_population st"
proof (cases "passes k alg st")
  case (Continue x)
  from passes_invariant[OF this] Continue show ?thesis by simp
next
  case (Break x)
  from passes_Break[OF this] obtain j st1 where
    j: "passes j alg st = Continue st1" "for_body alg st1 = Break x"
    by blast
  from passes_invariant[OF j(1)] for_body_Break_fields(5)[OF j(2)] Break show ?thesis
    by simp
next
  case (Raise e)
  with assms show ?thesis by simp
qed


text \<open>A pass that raises ends the \<^verbatim>\<open>for\<close> loop, and the run, with its exception.\<close>

lemma passes_Raise_for_loop:
  "passes k alg st = Raise e \<Longrightarrow> for_loop alg st = Inl e"
proof (induction k arbitrary: st)
  case 0
  then show ?case by simp
next
  case (Suc k)
  from Suc.prems have ne: "task_pool st \<noteq> []"
    by (auto split: if_splits)
  show ?case
  proof (cases "for_body alg st")
    case (Continue x)
    with Suc.prems ne have "passes k alg x = Raise e" by simp
    from Suc.IH[OF this] ne Continue show ?thesis
      by (subst for_loop.simps) simp
  next
    case (Break x)
    with Suc.prems ne show ?thesis by simp
  next
    case (Raise e')
    with Suc.prems ne show ?thesis
      by (subst for_loop.simps) simp
  qed
qed

lemma run_ends_at_raise:
  assumes "evaluations self < max_evaluations alg"
    and "passes k alg (start alg self w) = Raise e"
  shows "run alg self w = Some (Inl e)"
proof -
  have "task_pool (start alg self w) \<noteq> []"
  proof
    assume "task_pool (start alg self w) = []"
    then have "passes k alg (start alg self w) = Continue (start alg self w)"
      by (cases k) simp_all
    with assms(2) show False by simp
  qed
  then have "0 < number_of_cores alg" by (simp add: start_pool_nonempty)
  from run_entered[OF assms(1) this, of w] passes_Raise_for_loop[OF assms(2)]
  show ?thesis by simp
qed





text \<open>
  When a completion finds the population full and the budget exhausted, and the
  cancelling loop comes to its end, the run ends there with the population as it is.
\<close>

lemma break_ends_the_run:
  assumes "evaluations self < max_evaluations alg"
    and "passes k alg (start alg self w) = Continue st"
    and "task_pool st \<noteq> []"
    and "population_size alg \<le> length (population st)"
    and "max_evaluations alg \<le> evaluations st + 1"
    and "cancellation alg (world (handed_over alg st)) (length (still_outstanding alg st))
           = Inr flags"
  shows "\<exists>st'. for_body alg st = Break st'
           \<and> cancelled st' = cancelled st @ reached (still_outstanding alg st) flags
           \<and> task_pool st' = []
           \<and> submitted st' = submitted st
           \<and> population st' = population st
           \<and> run alg self w = Some (Inr (finish alg st'))
           \<and> get_result (finish alg st') = Some (population st)"
proof -
  let ?st' = "(handed_over alg st)\<lparr>evaluations := evaluations st + 1,
               cancelled := cancelled st @ reached (still_outstanding alg st) flags,
               task_pool := []\<rparr>"
  have b: "for_body alg st = Break ?st'"
    using for_body_exhausted[OF assms(4,5)] assms(6) by simp
  from for_loop_Break[OF assms(3) b] passes_Continue_for_loop[OF assms(2)]
  have f: "for_loop alg (start alg self w) = Inr ?st'" by simp
  from passes_invariant[OF assms(2)] assms(3) have "0 < number_of_cores alg"
    using start_pool_nonempty[of alg self w] by (metis length_0_conv)
  from run_entered[OF assms(1) this, of w] f
  have "run alg self w = Some (Inr (finish alg ?st'))" by simp
  with b show ?thesis
    by (simp add: handed_over_fields finish_def get_result_def)
qed

text \<open>When the cancelling loop raises there, the run ends with that exception.\<close>

lemma interrupted_cancellation_ends_the_run:
  assumes "evaluations self < max_evaluations alg"
    and "passes k alg (start alg self w) = Continue st"
    and "task_pool st \<noteq> []"
    and "population_size alg \<le> length (population st)"
    and "max_evaluations alg \<le> evaluations st + 1"
    and "cancellation alg (world (handed_over alg st)) (length (still_outstanding alg st))
           = Inl e"
  shows "for_body alg st = Raise e" and "run alg self w = Some (Inl e)"
proof -
  show b: "for_body alg st = Raise e"
    using for_body_exhausted[OF assms(4,5)] assms(6) by simp
  from passes_Suc_for_body[OF assms(2,3)] b
  have "passes (Suc k) alg (start alg self w) = Raise e" by simp
  from run_ends_at_raise[OF assms(1) this] show "run alg self w = Some (Inl e)" .
qed

section \<open>Evaluating the small configuration\<close>

lemmas small_defs = small_def small_create_solution_def small_evaluate_def small_selection_def
  small_crossover_def small_mutation_def created_def evaluated_def ranked_def
lemmas pass_defs = for_body_def handed_over_def completed_index_def completed_future_def
  still_outstanding_def end_of_body_def update_progress_def reached_def Let_def
lemmas rcs_defs = RankingAndCrowdingDistanceSelection_execute_def compute_ranking_def
  fronts.simps domination_count_def dominates_def DominanceComparator_compare_def
  overall_constraint_violation_def pareto_dominates_def set_rank_def

text \<open>
  The run of the small configuration from a fresh instance, pass by pass: two passes
  fill the population, three steady-state passes follow, and the sixth completion finds
  the budget exhausted.
\<close>

lemma small_start:
  "start small init 0 =
     \<lparr>self_population = None, evaluations = 0, start_computing_time = 2,
      total_computing_time = 0,
      population_to_evaluate = [created 1, created 2],
      population = [],
      task_pool = [created 1, created 2],
      submitted = [created 1, created 2],
      cancelled = [], notified = [], world = 2\<rparr>"
  by (simp add: start_def create_initial_population_def small_defs init_def eval_nat_numeral)

lemma small_passes_1:
  "passes 1 small (start small init 0) = Continue
     \<lparr>self_population = None, evaluations = 2, start_computing_time = 2,
      total_computing_time = 0,
      population_to_evaluate = [created 1, created 2],
      population = [evaluated 1],
      task_pool = [created 2, created 3],
      submitted = [created 1, created 2, created 3],
      cancelled = [], notified = [], world = 3\<rparr>"
  unfolding small_start One_nat_def
  apply (simp add: pass_defs small_def)
  apply (simp add: small_defs end_of_body_def update_progress_def Let_def numeral_2_eq_2[symmetric])
  apply (simp add: rcs_defs)?
  done

lemma small_passes_2:
  "passes 2 small (start small init 0) = Continue
     \<lparr>self_population = None, evaluations = 4, start_computing_time = 2,
      total_computing_time = 0,
      population_to_evaluate = [created 1, created 2],
      population = [evaluated 1, evaluated 2],
      task_pool = [created 3, created 4],
      submitted = [created 1, created 2, created 3, created 4],
      cancelled = [], notified = [], world = 4\<rparr>"
proof -
  have e: "(2::nat) = Suc 1" by simp
  show ?thesis
    apply (subst e)
    apply (subst passes_snoc[OF small_passes_1])
    apply (simp add: pass_defs small_def)
    apply (simp add: small_defs end_of_body_def update_progress_def Let_def numeral_2_eq_2[symmetric])
    apply (simp add: rcs_defs)?
    done
qed

lemma small_passes_3:
  "passes 3 small (start small init 0) = Continue
     \<lparr>self_population = None, evaluations = 6, start_computing_time = 2,
      total_computing_time = 0,
      population_to_evaluate = [created 1, created 2],
      population = [ranked 3 0, ranked 2 1],
      task_pool = [created 4, created 112],
      submitted = [created 1, created 2, created 3, created 4, created 112],
      cancelled = [], notified = [], world = 7\<rparr>"
proof -
  have e: "(3::nat) = Suc 2" by simp
  show ?thesis
    apply (subst e)
    apply (subst passes_snoc[OF small_passes_2])
    apply (simp add: pass_defs small_def)
    apply (simp add: small_defs end_of_body_def update_progress_def Let_def numeral_2_eq_2[symmetric])
    apply (simp add: rcs_defs)?
    done
qed

lemma small_passes_4:
  "passes 4 small (start small init 0) = Continue
     \<lparr>self_population = None, evaluations = 8, start_computing_time = 2,
      total_computing_time = 0,
      population_to_evaluate = [created 1, created 2],
      population = [ranked 4 0, ranked 3 1],
      task_pool = [created 112, created 121],
      submitted = [created 1, created 2, created 3, created 4, created 112, created 121],
      cancelled = [], notified = [], world = 10\<rparr>"
proof -
  have e: "(4::nat) = Suc 3" by simp
  show ?thesis
    apply (subst e)
    apply (subst passes_snoc[OF small_passes_3])
    apply (simp add: pass_defs small_def)
    apply (simp add: small_defs end_of_body_def update_progress_def Let_def numeral_2_eq_2[symmetric])
    apply (simp add: rcs_defs)?
    done
qed

lemma small_passes_5:
  "passes 5 small (start small init 0) = Continue
     \<lparr>self_population = None, evaluations = 10, start_computing_time = 2,
      total_computing_time = 0,
      population_to_evaluate = [created 1, created 2],
      population = [ranked 112 0, ranked 4 1],
      task_pool = [created 121, created 112],
      submitted = [created 1, created 2, created 3, created 4, created 112, created 121, created 112],
      cancelled = [], notified = [\<lparr>EVALUATIONS = 10, COMPUTING_TIME = 0, SOLUTIONS = [created 1, created 2], reference_front = None\<rparr>], world = 13\<rparr>"
proof -
  have e: "(5::nat) = Suc 4" by simp
  show ?thesis
    apply (subst e)
    apply (subst passes_snoc[OF small_passes_4])
    apply (simp add: pass_defs small_def)
    apply (simp add: small_defs end_of_body_def update_progress_def Let_def numeral_2_eq_2[symmetric])
    apply (simp add: rcs_defs)?
    done
qed

lemma small_passes_6:
  "passes 6 small (start small init 0) = Break
     \<lparr>self_population = None, evaluations = 11, start_computing_time = 2,
      total_computing_time = 0,
      population_to_evaluate = [created 1, created 2],
      population = [ranked 112 0, ranked 4 1],
      task_pool = [],
      submitted = [created 1, created 2, created 3, created 4, created 112, created 121, created 112],
      cancelled = [created 112], notified = [\<lparr>EVALUATIONS = 10, COMPUTING_TIME = 0, SOLUTIONS = [created 1, created 2], reference_front = None\<rparr>], world = 13\<rparr>"
proof -
  have e: "(6::nat) = Suc 5" by simp
  show ?thesis
    apply (subst e)
    apply (subst passes_snoc[OF small_passes_5])
    apply (simp add: pass_defs small_def)
    done
qed

text \<open>The fifth and the sixth pass, as passes from the state before them.\<close>

lemma small_pass_6:
  "for_body small (state_of (passes 5 small (start small init 0))) =
     passes 6 small (start small init 0)"
proof -
  have e: "(6::nat) = Suc 5" by simp
  show ?thesis
    apply (subst e)
    apply (subst passes_Suc_for_body[OF small_passes_5])
    apply (simp_all add: small_passes_5)
    done
qed

lemma small_pass_5:
  "for_body small (state_of (passes 4 small (start small init 0))) =
     passes 5 small (start small init 0)"
proof -
  have e: "(5::nat) = Suc 4" by simp
  show ?thesis
    apply (subst e)
    apply (subst passes_Suc_for_body[OF small_passes_4])
    apply (simp_all add: small_passes_4)
    done
qed

text \<open>The run ends with the sixth pass.\<close>

lemma small_run:
  "run small init 0 = Some (Inr (finish small (state_of (passes 6 small (start small init 0)))))"
proof -
  have h: "evaluations (init :: solution self) < max_evaluations small"
    by (simp add: init_def small_def)
  have b: "passes 6 small (start small init 0) =
      Break (state_of (passes 6 small (start small init 0)))"
    by (simp add: small_passes_6)
  from run_ends_at_break[OF h b] show ?thesis .
qed

text \<open>
  The run with the budget of one: two passes fill the population, though the counter is
  above the budget after the first; the third completion finds the budget exhausted.
\<close>

lemma hasty_start:
  "start hasty init 0 =
     \<lparr>self_population = None, evaluations = 0, start_computing_time = 2,
      total_computing_time = 0,
      population_to_evaluate = [created 1, created 2],
      population = [],
      task_pool = [created 1, created 2],
      submitted = [created 1, created 2],
      cancelled = [], notified = [], world = 2\<rparr>"
  by (simp add: start_def create_initial_population_def hasty_def small_defs init_def
        eval_nat_numeral)

lemma hasty_passes_1:
  "passes 1 hasty (start hasty init 0) = Continue
     \<lparr>self_population = None, evaluations = 2, start_computing_time = 2,
      total_computing_time = 0,
      population_to_evaluate = [created 1, created 2],
      population = [evaluated 1],
      task_pool = [created 2, created 3],
      submitted = [created 1, created 2, created 3],
      cancelled = [], notified = [], world = 3\<rparr>"
  unfolding hasty_start One_nat_def
  apply (simp add: pass_defs hasty_def small_def)
  apply (simp add: small_defs end_of_body_def update_progress_def Let_def)
  done

lemma hasty_passes_2:
  "passes 2 hasty (start hasty init 0) = Continue
     \<lparr>self_population = None, evaluations = 4, start_computing_time = 2,
      total_computing_time = 0,
      population_to_evaluate = [created 1, created 2],
      population = [evaluated 1, evaluated 2],
      task_pool = [created 3, created 4],
      submitted = [created 1, created 2, created 3, created 4],
      cancelled = [], notified = [], world = 4\<rparr>"
proof -
  have e: "(2::nat) = Suc 1" by simp
  show ?thesis
    apply (subst e)
    apply (subst passes_snoc[OF hasty_passes_1])
    apply (simp add: pass_defs hasty_def small_def)
    apply (simp add: small_defs end_of_body_def update_progress_def Let_def)
    done
qed

lemma hasty_passes_3:
  "passes 3 hasty (start hasty init 0) = Break
     \<lparr>self_population = None, evaluations = 5, start_computing_time = 2,
      total_computing_time = 0,
      population_to_evaluate = [created 1, created 2],
      population = [evaluated 1, evaluated 2],
      task_pool = [],
      submitted = [created 1, created 2, created 3, created 4],
      cancelled = [created 4], notified = [], world = 4\<rparr>"
proof -
  have e: "(3::nat) = Suc 2" by simp
  show ?thesis
    apply (subst e)
    apply (subst passes_snoc[OF hasty_passes_2])
    apply (simp add: pass_defs hasty_def small_def)
    done
qed

lemma hasty_pass_2:
  "for_body hasty (state_of (passes 1 hasty (start hasty init 0))) =
     passes 2 hasty (start hasty init 0)"
proof -
  have e: "(2::nat) = Suc 1" by simp
  show ?thesis
    apply (subst e)
    apply (subst passes_Suc_for_body[OF hasty_passes_1])
    apply (simp_all only: hasty_passes_1 pass.sel)
    apply simp
    done
qed

lemma hasty_run:
  "run hasty init 0 = Some (Inr (finish hasty (state_of (passes 3 hasty (start hasty init 0)))))"
proof -
  have h: "evaluations (init :: solution self) < max_evaluations hasty"
    by (simp add: init_def hasty_def small_def)
  have b: "passes 3 hasty (start hasty init 0) =
      Break (state_of (passes 3 hasty (start hasty init 0)))"
    by (simp add: hasty_passes_3)
  from run_ends_at_break[OF h b] show ?thesis .
qed




text \<open>The run with the budget of zero ends before its first pass.\<close>

lemma idle_run: "run idle init 0 = Some (Inr (finish idle (start idle init 0)))"
  by (rule run_skipped) (simp add: idle_def small_def init_def)

lemma idle_start: "population (start idle init 0) = []"
  by (simp add: start_fields)

section \<open>The size of the selection\<close>

text \<open>
  Under a strict partial order a non-empty population has a solution that nothing
  dominates, so the fronts come out non-empty until every solution is in one: they
  partition the population. The selection then fills the target exactly.
\<close>

lemma domination_count_0:
  "domination_count cmp P s = 0 \<longleftrightarrow> (\<forall>t\<in>set P. \<not> dominates cmp t s)"
  by (simp add: domination_count_def filter_empty_conv)

text \<open>
  The decrements of section 4.2: the count of a solution within the rest is its count
  within the population less one for each member of the first front that dominates it.
\<close>

lemma count_in_rest:
  "domination_count cmp (filter (\<lambda>s. domination_count cmp P s \<noteq> 0) P) s +
   length (filter (\<lambda>t. dominates cmp t s) (filter (\<lambda>s. domination_count cmp P s = 0) P)) =
   domination_count cmp P s"
proof -
  have "length (filter Q (filter A xs)) + length (filter Q (filter (\<lambda>x. \<not> A x) xs)) =
      length (filter Q xs)" for Q A :: "'a \<Rightarrow> bool" and xs
    by (induction xs) auto
  from this[of "\<lambda>t. dominates cmp t s" "\<lambda>s. domination_count cmp P s \<noteq> 0" P]
  show ?thesis by (simp add: domination_count_def)
qed

lemma undominated_exists:
  assumes "strict_partial_order cmp" and "P \<noteq> []"
  shows "\<exists>s\<in>set P. \<forall>t\<in>set P. \<not> dominates cmp t s"
  using assms(2)
proof (induction P)
  case Nil
  then show ?case by simp
next
  case (Cons x xs)
  from assms(1) have irr: "\<And>a. \<not> dominates cmp a a"
    and tr: "\<And>a b c. dominates cmp a b \<Longrightarrow> dominates cmp b c \<Longrightarrow> dominates cmp a c"
    unfolding strict_partial_order_def by blast+
  show ?case
  proof (cases "xs = []")
    case True
    with irr show ?thesis by simp
  next
    case False
    from Cons.IH[OF this] obtain m where
      m: "m \<in> set xs" "\<forall>t\<in>set xs. \<not> dominates cmp t m" by blast
    show ?thesis
    proof (cases "dominates cmp x m")
      case True
      have "\<forall>t\<in>set (x # xs). \<not> dominates cmp t x"
      proof
        fix t assume "t \<in> set (x # xs)"
        show "\<not> dominates cmp t x"
        proof
          assume d: "dominates cmp t x"
          with irr have "t \<noteq> x" by blast
          with \<open>t \<in> set (x # xs)\<close> have "t \<in> set xs" by simp
          moreover from tr[OF d True] have "dominates cmp t m" .
          ultimately show False using m(2) by blast
        qed
      qed
      then show ?thesis by auto
    next
      case False
      with m show ?thesis by auto
    qed
  qed
qed

lemma fronts_cover:
  "strict_partial_order cmp \<Longrightarrow> sum_list (map length (fronts cmp P)) = length P"
proof (induction cmp P rule: fronts.induct)
  case (1 cmp P)
  note spo = "1.prems"
  let ?F = "filter (\<lambda>s. domination_count cmp P s = 0) P"
  let ?R = "filter (\<lambda>s. domination_count cmp P s \<noteq> 0) P"
  show ?case
  proof (cases "P = []")
    case True
    then show ?thesis by (subst fronts.simps) simp
  next
    case False
    from undominated_exists[OF spo False] have ne: "?F \<noteq> []"
      by (auto simp: filter_empty_conv domination_count_0)
    from "1.IH"[OF refl ne spo] have "sum_list (map length (fronts cmp ?R)) = length ?R" .
    moreover have "length ?F + length ?R = length P"
      by (rule sum_length_filter_compl)
    ultimately show ?thesis using ne
      by (subst fronts.simps) (simp add: Let_def)
  qed
qed


text \<open>
  The fronts are what section 4.2 describes: no member of a front dominates another, and
  under a strict partial order every solution of the population is in a front.
\<close>

lemma fronts_valid:
  "F \<in> set (fronts cmp P) \<Longrightarrow> a \<in> set F \<Longrightarrow> b \<in> set F \<Longrightarrow> \<not> dominates cmp a b"
proof (induction cmp P rule: fronts.induct)
  case (1 cmp P)
  let ?F = "filter (\<lambda>s. domination_count cmp P s = 0) P"
  let ?R = "filter (\<lambda>s. domination_count cmp P s \<noteq> 0) P"
  from "1.prems"(1) have ne: "?F \<noteq> []"
    by (subst (asm) fronts.simps) (auto simp: Let_def split: if_splits)
  with "1.prems"(1) have "F = ?F \<or> F \<in> set (fronts cmp ?R)"
    by (subst (asm) fronts.simps) (auto simp: Let_def)
  then show ?case
  proof
    assume "F = ?F"
    with "1.prems"(2,3) show ?thesis
      by (auto simp: domination_count_0)
  next
    assume "F \<in> set (fronts cmp ?R)"
    from "1.IH"[OF refl ne this "1.prems"(2,3)] show ?thesis .
  qed
qed

lemma fronts_members:
  "strict_partial_order cmp \<Longrightarrow> set (concat (fronts cmp P)) = set P"
proof (induction cmp P rule: fronts.induct)
  case (1 cmp P)
  let ?F = "filter (\<lambda>s. domination_count cmp P s = 0) P"
  let ?R = "filter (\<lambda>s. domination_count cmp P s \<noteq> 0) P"
  show ?case
  proof (cases "P = []")
    case True
    then show ?thesis by (subst fronts.simps) simp
  next
    case False
    from undominated_exists[OF "1.prems" False] have ne: "?F \<noteq> []"
      by (auto simp: filter_empty_conv domination_count_0)
    from "1.IH"[OF refl ne "1.prems"] have "set (concat (fronts cmp ?R)) = set ?R" .
    with ne show ?thesis
      by (subst fronts.simps) (auto simp: Let_def)
  qed
qed

lemma map_length_compute_ranking:
  "map length (compute_ranking cmp P) = map length (fronts cmp P)"
proof -
  have "map length (map (\<lambda>(k, F). map (set_rank k) F) (zip [0..<length fs] fs)) = map length fs"
    for fs :: "solution list list"
    by (rule nth_equalityI) simp_all
  then show ?thesis by (simp add: compute_ranking_def Let_def)
qed

lemma length_add_objective: "length (add_objective F m d) = length d"
proof -
  have "length (fold (\<lambda>k d. d[f k := g k d]) ks d) = length d"
    for f :: "nat \<Rightarrow> nat" and g :: "nat \<Rightarrow> number list \<Rightarrow> number" and ks
    by (induction ks arbitrary: d) simp_all
  then show ?thesis by (simp add: add_objective_def Let_def)
qed

lemma length_crowding_distances: "length (crowding_distances F) = length F"
proof -
  have "length (fold (add_objective F) ms d) = length d" for ms d
    by (induction ms arbitrary: d) (simp_all add: length_add_objective)
  then show ?thesis by (simp add: crowding_distances_def)
qed

lemma length_sort_by_crowding_distance: "length (sort_by_crowding_distance F) = length F"
  by (simp add: sort_by_crowding_distance_def compute_density_estimator_def
        length_crowding_distances)

lemma length_accumulate:
  "length result \<le> target \<Longrightarrow>
     length (accumulate target result Fs) =
       min target (length result + sum_list (map length Fs))"
  by (induction Fs arbitrary: result) (auto simp: length_sort_by_crowding_distance)

lemma length_selection:
  assumes "strict_partial_order cmp" and "n \<le> length P"
  shows "length (RankingAndCrowdingDistanceSelection_execute n cmp P) = n"
proof -
  have "sum_list (map length (compute_ranking cmp P)) = length P"
    by (simp add: map_length_compute_ranking fronts_cover[OF assms(1)])
  with assms(2) show ?thesis
    by (simp add: RankingAndCrowdingDistanceSelection_execute_def length_accumulate)
qed

text \<open>The dominance comparator of section 4.1 is a strict partial order.\<close>

lemma overall_constraint_violation_nonneg: "0 \<le> overall_constraint_violation s"
  unfolding overall_constraint_violation_def
  by (rule sum_list_nonneg) auto

lemma pareto_dominates_iff:
  "pareto_dominates xs ys \<longleftrightarrow> list_all2 (\<le>) xs ys \<and> xs \<noteq> ys"
proof -
  have "list_all2 (\<le>) xs ys \<Longrightarrow> list_ex (\<lambda>(x, y). x < y) (zip xs ys) \<longleftrightarrow> xs \<noteq> ys"
    by (induction xs ys rule: list_all2_induct) auto
  then show ?thesis by (auto simp: pareto_dominates_def)
qed

lemma dominates_DominanceComparator:
  "dominates DominanceComparator_compare a b \<longleftrightarrow>
     overall_constraint_violation a < overall_constraint_violation b \<or>
     overall_constraint_violation a = overall_constraint_violation b \<and>
       pareto_dominates (objectives a) (objectives b)"
  using overall_constraint_violation_nonneg[of a] overall_constraint_violation_nonneg[of b]
  by (auto simp: dominates_def DominanceComparator_compare_def Let_def)

lemma pareto_dominates_trans:
  assumes "pareto_dominates xs ys" and "pareto_dominates ys zs"
  shows "pareto_dominates xs zs"
proof -
  from assms have xy: "list_all2 (\<le>) xs ys" "xs \<noteq> ys" and yz: "list_all2 (\<le>) ys zs"
    by (simp_all add: pareto_dominates_iff)
  have "list_all2 (\<le>) xs zs"
    using xy(1) yz by (rule list_all2_trans[rotated]) simp
  moreover have "xs \<noteq> zs"
  proof
    assume "xs = zs"
    with xy(1) yz have "xs = ys"
      by (intro list_all2_antisym[of "(\<le>)" "(\<le>)"]) auto
    with xy(2) show False by simp
  qed
  ultimately show ?thesis by (simp add: pareto_dominates_iff)
qed

lemma strict_partial_order_DominanceComparator:
  "strict_partial_order DominanceComparator_compare"
  unfolding strict_partial_order_def
proof (intro conjI allI impI)
  fix a
  show "\<not> dominates DominanceComparator_compare a a"
    by (simp add: dominates_DominanceComparator pareto_dominates_iff)
next
  fix a b c
  assume "dominates DominanceComparator_compare a b" "dominates DominanceComparator_compare b c"
  then show "dominates DominanceComparator_compare a c"
    by (auto simp: dominates_DominanceComparator dest: pareto_dominates_trans)
qed

text \<open>
  Three mutually non-dominated solutions and a target of two: the one front is cut by
  crowding distance, and the two boundary solutions stay.
\<close>

lemma fronts_of_three_points:
  "fronts DominanceComparator_compare [point [1, 4], point [2, 3], point [3, 1]] =
     [ [point [1, 4], point [2, 3], point [3, 1]]]"
  by (simp add: fronts.simps domination_count_def dominates_def DominanceComparator_compare_def
        overall_constraint_violation_def pareto_dominates_def point_def)

lemma selection_of_three_points:
  "map objectives (RankingAndCrowdingDistanceSelection_execute 2 DominanceComparator_compare
     [point [1, 4], point [2, 3], point [3, 1]]) = [ [1, 4], [3, 1]]"
  apply (simp add: RankingAndCrowdingDistanceSelection_execute_def compute_ranking_def
      fronts_of_three_points)
  apply (simp add: sort_by_crowding_distance_def compute_density_estimator_def)
  apply (simp add: crowding_distances_def objective_count_def point_def set_rank_def)
  apply (simp add: add_objective_def Let_def upt_conv_Cons distance_key_def
      set_crowding_distance_def)
  done

section \<open>Scenario D\<close>





section \<open>The value \<open>DTLZ1.evaluate\<close> returns\<close>

text \<open>Whenever \<^verbatim>\<open>DTLZ1.evaluate\<close> returns, it returns \<^verbatim>\<open>None\<close>.\<close>

lemma DTLZ1_evaluate_returns_None:
  "DTLZ1_evaluate self solution = Inr (solution', returned) \<Longrightarrow> returned = None"
  by (auto simp: DTLZ1_evaluate_def Let_def split: sum.splits)

section \<open>The claims\<close>

text \<open>
  C1. The claim: in the steady-state phase the two parents are chosen by the selection
  operator from the current population, the one the replacement step has just produced,
  and exactly one offspring is submitted. The source passes \<^verbatim>\<open>population_to_evaluate\<close>, the
  initial solutions as they were created, to the selection operator. In the small configuration
  the third completion is the first steady-state one: the replacement leaves the
  population \<open>[3, 2]\<close>, and the one offspring submitted is 112, the mutated crossover of
  the initial solutions 1 and 2; parents drawn from the population would have given 132.
  Solution 1 is not in the population at all.
\<close>

theorem parents_drawn_from_initial_population:
  "population_to_evaluate (state_of (passes 3 small (start small init 0))) = [created 1, created 2]
   \<and> population (state_of (passes 3 small (start small init 0))) = [ranked 3 0, ranked 2 1]
   \<and> last (submitted (state_of (passes 3 small (start small init 0)))) = created 112
   \<and> fst (small_mutation (hd (fst (small_crossover [created 1, created 2] 6))) 6) = created 112
   \<and> fst (small_mutation (hd (fst (small_crossover [ranked 3 0, ranked 2 1] 6))) 6) = created 132
   \<and> created 1 \<notin> set (population (state_of (passes 3 small (start small init 0))))"
  unfolding small_passes_3
  by (simp add: small_defs)



text \<open>
  C3, as stated: every completed future that \<^verbatim>\<open>run\<close> processes advances the counter by
  exactly two. It fails at the completion that finds the budget exhausted: the \<^verbatim>\<open>break\<close>
  leaves the body before the second increment. In the small configuration the counter is
  10 after five completions and 11 after the sixth.
\<close>

theorem last_completion_counts_once:
  "evaluations (state_of (passes 5 small (start small init 0))) = 10
   \<and> is_Break (passes 6 small (start small init 0))
   \<and> evaluations (state_of (passes 6 small (start small init 0))) = 11
   \<and> evaluations (state_of (passes 6 small (start small init 0)))
       \<noteq> evaluations (state_of (passes 5 small (start small init 0))) + 2"
  unfolding small_passes_5 small_passes_6
  by simp

text \<open>
  C3, amended: every completion that is accepted, in the filling phase or in the
  steady-state phase, advances the counter by exactly two, once at intake and once at the
  bottom of the body, and exactly one evaluation is submitted for it; the completion at
  which the budget is found exhausted advances the counter by one and submits nothing.
\<close>

theorem counter_advance_per_completion:
  assumes "for_body alg st = p" and "\<not> is_Raise p"
  shows "evaluations (state_of p) = evaluations st + (if is_Break p then 1 else 2)
         \<and> length (submitted (state_of p)) =
             length (submitted st) + (if is_Break p then 0 else 1)"
proof (cases p)
  case (Continue st')
  with assms(1) have "for_body alg st = Continue st'" by simp
  from for_body_Continue(1,2)[OF this] Continue show ?thesis by auto
next
  case (Break st')
  with assms(1) have "for_body alg st = Break st'" by simp
  from for_body_Break_fields(1,3)[OF this] Break show ?thesis
    by simp
next
  case (Raise e)
  with assms(2) show ?thesis by simp
qed

text \<open>
  C3, amended, in the small configuration: the fifth completion is accepted (8 to 10, one
  submission), the sixth finds the budget exhausted (10 to 11, no submission).
\<close>

theorem counter_advance_per_completion_witness:
  "is_Continue (passes 5 small (start small init 0))
   \<and> evaluations (state_of (passes 5 small (start small init 0))) =
       evaluations (state_of (passes 4 small (start small init 0))) + 2
   \<and> length (submitted (state_of (passes 5 small (start small init 0)))) =
       length (submitted (state_of (passes 4 small (start small init 0)))) + 1
   \<and> is_Break (passes 6 small (start small init 0))
   \<and> evaluations (state_of (passes 6 small (start small init 0))) =
       evaluations (state_of (passes 5 small (start small init 0))) + 1
   \<and> length (submitted (state_of (passes 6 small (start small init 0)))) =
       length (submitted (state_of (passes 5 small (start small init 0))))"
  using counter_advance_per_completion[OF small_pass_5]
    counter_advance_per_completion[OF small_pass_6]
  by (simp add: small_passes_5 small_passes_6)

text \<open>
  C4. \<^verbatim>\<open>number_of_cores\<close> evaluations are submitted before the loop, and they are the
  task pool. After any number of passes that ended at the bottom of the body, in the
  filling phase as in the steady-state phase, the number of outstanding futures is
  \<^verbatim>\<open>number_of_cores\<close> again: each pass has taken one completed future from the pool and
  submitted exactly one evaluation, so that \<open>k\<close> passes have made \<open>k\<close> submissions. (Inside
  a pass, between the hand-over and the submission, one future less is outstanding.)
\<close>

theorem task_pool_stays_full:
  assumes "passes k alg (start alg self w) = Continue st"
  shows "length (submitted (start alg self w)) = number_of_cores alg
         \<and> task_pool (start alg self w) = submitted (start alg self w)
         \<and> length (task_pool st) = number_of_cores alg
         \<and> (0 < number_of_cores alg \<longrightarrow> length (submitted st) = number_of_cores alg + k)"
  using passes_invariant[OF assms] start_pool_nonempty[of alg self w]
  by (simp add: start_fields)

text \<open>C4 in the small configuration, after five passes: two futures outstanding, 2 + 5 submissions.\<close>

theorem task_pool_stays_full_witness:
  "passes 5 small (start small init 0) =
     Continue (state_of (passes 5 small (start small init 0)))
   \<and> length (submitted (start small init 0)) = number_of_cores small
   \<and> task_pool (start small init 0) = submitted (start small init 0)
   \<and> length (task_pool (state_of (passes 5 small (start small init 0)))) = number_of_cores small
   \<and> 0 < number_of_cores small
   \<and> length (submitted (state_of (passes 5 small (start small init 0)))) =
       number_of_cores small + 5"
proof -
  have c: "passes 5 small (start small init 0) =
     Continue (state_of (passes 5 small (start small init 0)))"
    by (simp add: small_passes_5)
  have n: "0 < number_of_cores small" by (simp add: small_def)
  from task_pool_stays_full[OF c] c n show ?thesis by simp
qed


text \<open>
  C6. The claim: whenever the counter is a multiple of 10 the observers receive the
  current evaluations count, the computing time elapsed so far and the current population.
  \<^verbatim>\<open>update_progress\<close> sends \<^verbatim>\<open>self.total_computing_time\<close>, which \<^verbatim>\<open>run\<close> assigns only
  after the loop, and it is called with \<^verbatim>\<open>population_to_evaluate\<close>. In the small
  configuration the event at 10 evaluations carries the computing time 0 and the two
  initial solutions as they were created, while 11 units of time have passed and the
  population is \<open>[112, 4]\<close>.
\<close>

theorem progress_event_is_stale:
  "notified (state_of (passes 5 small (start small init 0))) =
     [\<lparr>EVALUATIONS = 10, COMPUTING_TIME = 0, SOLUTIONS = [created 1, created 2],
       reference_front = None\<rparr>]
   \<and> population (state_of (passes 5 small (start small init 0))) = [ranked 112 0, ranked 4 1]
   \<and> time_time small (world (state_of (passes 5 small (start small init 0))))
         - start_computing_time (state_of (passes 5 small (start small init 0))) = 11"
  unfolding small_passes_5
  by (simp add: small_def)

text \<open>
  C7. \<^verbatim>\<open>NSGAII.replacement\<close> is the ranking-and-crowding-distance selection, with the
  target \<^verbatim>\<open>population_size\<close> and the algorithm's dominance comparator, of the parents
  followed by the offspring; under a comparator that is a strict partial order, as
  section 4.1 requires, the result has exactly \<^verbatim>\<open>population_size\<close> solutions whenever
  parents and offspring together are at least as many.
\<close>

theorem replacement_selects_from_union:
  "replacement self P Q =
     RankingAndCrowdingDistanceSelection_execute (NSGAII_population_size self)
       (dominance_comparator self) (P @ Q)
   \<and> (strict_partial_order (dominance_comparator self) \<longrightarrow>
        NSGAII_population_size self \<le> length P + length Q \<longrightarrow>
        length (replacement self P Q) = NSGAII_population_size self)"
  by (simp add: replacement_def Let_def length_selection)

text \<open>
  C7 with the dominance comparator of section 4.1, two parents \<open>(1, 4)\<close> and \<open>(2, 3)\<close>,
  one offspring \<open>(3, 1)\<close> and a population size of two: the three are mutually
  non-dominated and the two boundary solutions are kept.
\<close>

theorem replacement_selects_from_union_witness:
  "strict_partial_order
     (dominance_comparator
        \<lparr>NSGAII_population_size = 2, dominance_comparator = DominanceComparator_compare\<rparr>)
   \<and> NSGAII_population_size
        \<lparr>NSGAII_population_size = 2, dominance_comparator = DominanceComparator_compare\<rparr>
       \<le> length [point [1, 4], point [2, 3]] + length [point [3, 1]]
   \<and> length (replacement
        \<lparr>NSGAII_population_size = 2, dominance_comparator = DominanceComparator_compare\<rparr>
        [point [1, 4], point [2, 3]] [point [3, 1]]) = 2
   \<and> map objectives (replacement
        \<lparr>NSGAII_population_size = 2, dominance_comparator = DominanceComparator_compare\<rparr>
        [point [1, 4], point [2, 3]] [point [3, 1]]) = [ [1, 4], [3, 1]]"
proof -
  let ?self = "\<lparr>NSGAII_population_size = 2, dominance_comparator = DominanceComparator_compare\<rparr>"
  let ?P = "[point [1, 4], point [2, 3]]"
  let ?Q = "[point [3, 1]]"
  have h1: "strict_partial_order (dominance_comparator ?self)"
    by (simp add: strict_partial_order_DominanceComparator)
  have h2: "NSGAII_population_size ?self \<le> length ?P + length ?Q"
    by simp
  from replacement_selects_from_union[of ?self ?P ?Q] h1 h2
  have eq: "replacement ?self ?P ?Q =
      RankingAndCrowdingDistanceSelection_execute (NSGAII_population_size ?self)
        (dominance_comparator ?self) (?P @ ?Q)"
    and len: "length (replacement ?self ?P ?Q) = NSGAII_population_size ?self"
    by blast+
  have "map objectives (replacement ?self ?P ?Q) = [ [1, 4], [3, 1]]"
    unfolding eq using selection_of_three_points by simp
  with h1 h2 len show ?thesis by simp
qed

text \<open>
  C8. The claim: \<^verbatim>\<open>evaluate\<close> fills the objectives and returns the evaluated solution,
  never \<^verbatim>\<open>None\<close>. \<^verbatim>\<open>DTLZ1.evaluate\<close> fills the objectives and ends without a \<^verbatim>\<open>return\<close>
  statement: with three variables, all 0.5, and two objectives it leaves the objectives
  \<open>[0.25, 0.25]\<close> in the solution and returns \<^verbatim>\<open>None\<close>.
\<close>

theorem DTLZ1_evaluate_returns_no_solution:
  "DTLZ1_evaluate \<lparr>number_of_variables = 3, number_of_objectives = 2\<rparr>
     \<lparr>variables = [0.5, 0.5, 0.5], objectives = [0, 0], constraints = [],
      attributes = Map.empty\<rparr>
   = Inr (\<lparr>variables = [0.5, 0.5, 0.5], objectives = [0.25, 0.25], constraints = [],
          attributes = Map.empty\<rparr>, None)"
  by (simp add: DTLZ1_evaluate_def range_py_def upto.simps getitem_def setitem_def
        scale_objective_def)

text \<open>
  C9, as stated: the run ends only after \<^verbatim>\<open>population_size\<close> solutions have been
  accepted. It fails when the guard of the main loop is false at the call: with a budget
  of zero and a population size of two the loop is skipped, no completion is looked at,
  and \<^verbatim>\<open>run\<close> returns the empty population.
\<close>

theorem run_can_end_with_empty_population:
  "max_evaluations idle = 0
   \<and> population_size idle = 2
   \<and> run idle init 0 = Some (Inr (finish idle (start idle init 0)))
   \<and> get_result (finish idle (start idle init 0)) = Some []
   \<and> length (the (get_result (finish idle (start idle init 0)))) < population_size idle"
  unfolding idle_run
  by (simp add: finish_def get_result_def idle_start) (simp add: idle_def small_def)

text \<open>
  C9, amended. While the population is not full a pass cannot end at the \<^verbatim>\<open>break\<close>:
  whatever the counter says, the completed solution is accepted (when its evaluation has
  not failed) and the evaluation of a fresh solution is submitted. Whenever the loop
  reaches the \<^verbatim>\<open>break\<close> the population is full, and a run that enters its main loop
  (the counter is below the budget when \<^verbatim>\<open>run\<close> is called) and returns has therefore a
  population of at least \<^verbatim>\<open>population_size\<close> solutions.
\<close>

theorem filling_phase_never_cancels:
  "(length (population st) < population_size alg \<longrightarrow>
      \<not> is_Break (for_body alg st) \<and>
      (\<forall>r. evaluate alg (completed_future alg st) = Inr r \<longrightarrow>
         is_Continue (for_body alg st) \<and>
         population (state_of (for_body alg st)) = population st @ [r] \<and>
         submitted (state_of (for_body alg st)) =
           submitted st @ [fst (create_solution alg (world (handed_over alg st)))]))
   \<and> (passes k alg st0 = Break st'' \<longrightarrow> population_size alg \<le> length (population st''))
   \<and> (evaluations self < max_evaluations alg \<longrightarrow>
      run alg self w = Some (Inr st') \<longrightarrow>
      (\<exists>P. get_result st' = Some P \<and> population_size alg \<le> length P))"
proof (intro conjI impI allI)
  assume "length (population st) < population_size alg"
  then show "\<not> is_Break (for_body alg st)"
    using for_body_Break(1)[of alg st] by (cases "for_body alg st") auto
next
  fix r
  assume a: "length (population st) < population_size alg"
    "evaluate alg (completed_future alg st) = Inr r"
  from for_body_filling[OF a]
  show "is_Continue (for_body alg st)"
    and "population (state_of (for_body alg st)) = population st @ [r]"
    and "submitted (state_of (for_body alg st)) =
           submitted st @ [fst (create_solution alg (world (handed_over alg st)))]"
    by simp_all
next
  assume "passes k alg st0 = Break st''"
  from passes_Break[OF this] obtain j st1 where "for_body alg st1 = Break st''"
    by blast
  from for_body_Break(1)[OF this] for_body_Break_fields(2)[OF this]
  show "population_size alg \<le> length (population st'')"
    by simp
next
  assume e: "evaluations self < max_evaluations alg"
    and r: "run alg self w = Some (Inr st')"
  have c: "0 < number_of_cores alg"
  proof (rule ccontr)
    assume "\<not> 0 < number_of_cores alg"
    then have "number_of_cores alg = 0" by simp
    from run_diverges[OF e this, of w] r show False by simp
  qed
  from run_entered[OF e c, of w] r obtain st1 where
    f: "for_loop alg (start alg self w) = Inr st1" and s: "st' = finish alg st1"
    by (auto split: sum.splits)
  from c have "task_pool (start alg self w) \<noteq> []"
    by (simp add: start_pool_nonempty)
  from for_loop_result(1)[OF this f] s
  show "\<exists>P. get_result st' = Some P \<and> population_size alg \<le> length P"
    by (simp add: finish_def get_result_def)
qed

text \<open>
  C9, amended, with a population of two and a budget of one: after the first pass the counter is 2,
  above the budget, and the population has one solution; the second completion is
  accepted all the same and a fresh solution (4) is submitted; the run returns two
  solutions.
\<close>

theorem filling_phase_never_cancels_witness:
  "length (population (state_of (passes 1 hasty (start hasty init 0)))) < population_size hasty
   \<and> max_evaluations hasty < evaluations (state_of (passes 1 hasty (start hasty init 0)))
   \<and> \<not> is_Break (for_body hasty (state_of (passes 1 hasty (start hasty init 0))))
   \<and> evaluate hasty (completed_future hasty (state_of (passes 1 hasty (start hasty init 0))))
       = Inr (evaluated 2)
   \<and> is_Continue (for_body hasty (state_of (passes 1 hasty (start hasty init 0))))
   \<and> population (state_of (for_body hasty (state_of (passes 1 hasty (start hasty init 0)))))
       = [evaluated 1, evaluated 2]
   \<and> submitted (state_of (for_body hasty (state_of (passes 1 hasty (start hasty init 0)))))
       = [created 1, created 2, created 3, created 4]
   \<and> passes 3 hasty (start hasty init 0) =
       Break (state_of (passes 3 hasty (start hasty init 0)))
   \<and> population_size hasty
       \<le> length (population (state_of (passes 3 hasty (start hasty init 0))))
   \<and> evaluations (init :: solution self) < max_evaluations hasty
   \<and> run hasty init 0 =
       Some (Inr (finish hasty (state_of (passes 3 hasty (start hasty init 0)))))
   \<and> get_result (finish hasty (state_of (passes 3 hasty (start hasty init 0))))
       = Some [evaluated 1, evaluated 2]
   \<and> population_size hasty \<le> length [evaluated 1, evaluated 2]"
proof -
  let ?s1 = "state_of (passes 1 hasty (start hasty init 0))"
  let ?f = "finish hasty (state_of (passes 3 hasty (start hasty init 0)))"
  have l: "length (population ?s1) < population_size hasty"
    unfolding hasty_passes_1 by (simp add: hasty_def small_def)
  have m: "max_evaluations hasty < evaluations ?s1"
    unfolding hasty_passes_1 by (simp add: hasty_def small_def)
  have v: "evaluate hasty (completed_future hasty ?s1) = Inr (evaluated 2)"
    unfolding hasty_passes_1
    by (simp add: hasty_def small_defs completed_future_def completed_index_def)
  have i: "evaluations (init :: solution self) < max_evaluations hasty"
    by (simp add: init_def hasty_def small_def)
  have g: "get_result ?f = Some [evaluated 1, evaluated 2]"
    unfolding hasty_passes_3 by (simp add: finish_def get_result_def)
  have c: "fst (create_solution hasty (world (handed_over hasty ?s1))) = created 4"
    unfolding hasty_passes_1
    by (simp add: hasty_def small_def small_create_solution_def handed_over_def)
  have s: "submitted ?s1 = [created 1, created 2, created 3]"
    unfolding hasty_passes_1 by simp
  have p: "population ?s1 = [evaluated 1]"
    unfolding hasty_passes_1 by simp
  have z: "population_size hasty \<le> length [evaluated 1, evaluated 2]"
    by (simp add: hasty_def small_def)
  have b: "passes 3 hasty (start hasty init 0) =
      Break (state_of (passes 3 hasty (start hasty init 0)))"
    by (simp add: hasty_passes_3)
  from filling_phase_never_cancels
    [of ?s1 hasty 3 "start hasty init 0" "state_of (passes 3 hasty (start hasty init 0))"
        init 0 ?f]
    l m v i g c s p z b hasty_run
  show ?thesis by simp
qed

text \<open>
  C10. The constructor leaves \<^verbatim>\<open>self.population\<close> at \<^verbatim>\<open>None\<close>, no pass of the loop touches
  it, and \<^verbatim>\<open>run\<close> assigns the population to it after the loop: \<^verbatim>\<open>get_result()\<close> on a
  fresh instance gives \<^verbatim>\<open>None\<close> before \<^verbatim>\<open>run\<close> and after any number of passes, and the
  final population once \<^verbatim>\<open>run\<close> has returned.
\<close>

theorem result_is_None_until_run_ends:
  "get_result (init :: 's self) = None
   \<and> (\<forall>k. \<not> is_Raise (passes k alg (start alg (init :: 's self) w)) \<longrightarrow>
          get_result (state_of (passes k alg (start alg (init :: 's self) w))) = None)
   \<and> (\<forall>st. run alg (init :: 's self) w = Some (Inr st) \<longrightarrow>
          get_result st = Some (population st))"
proof (intro conjI allI impI)
  show "get_result (init :: 's self) = None"
    by (simp add: get_result_def init_def)
next
  fix k
  assume "\<not> is_Raise (passes k alg (start alg (init :: 's self) w))"
  from passes_self_population[OF this]
  show "get_result (state_of (passes k alg (start alg (init :: 's self) w))) = None"
    by (simp add: get_result_def start_fields init_def)
next
  fix st
  assume "run alg (init :: 's self) w = Some (Inr st)"
  then obtain st' where "st = finish alg st'"
    by (auto simp: run_def split: option.splits sum.splits)
  then show "get_result st = Some (population st)"
    by (simp add: finish_def get_result_def)
qed

text \<open>
  C10 in the small configuration: \<^verbatim>\<open>None\<close> after five passes and after the sixth, which
  ends the loop; \<open>[112, 4]\<close> when \<^verbatim>\<open>run\<close> has returned.
\<close>

theorem result_is_None_until_run_ends_witness:
  "get_result (init :: solution self) = None
   \<and> \<not> is_Raise (passes 5 small (start small init 0))
   \<and> get_result (state_of (passes 5 small (start small init 0))) = None
   \<and> \<not> is_Raise (passes 6 small (start small init 0))
   \<and> get_result (state_of (passes 6 small (start small init 0))) = None
   \<and> run small init 0 =
       Some (Inr (finish small (state_of (passes 6 small (start small init 0)))))
   \<and> get_result (finish small (state_of (passes 6 small (start small init 0)))) =
       Some [ranked 112 0, ranked 4 1]"
proof -
  have r5: "\<not> is_Raise (passes 5 small (start small init 0))"
    by (simp add: small_passes_5)
  have r6: "\<not> is_Raise (passes 6 small (start small init 0))"
    by (simp add: small_passes_6)
  have p: "population (finish small (state_of (passes 6 small (start small init 0)))) =
      [ranked 112 0, ranked 4 1]"
    by (simp add: small_passes_6 finish_def)
  from result_is_None_until_run_ends[of small 0] r5 r6 small_run p show ?thesis
    by simp
qed

end
